theory Spec2Isabelle
  imports Main "HOL-Library.Word"
begin

section \<open>Stack walking and code-address lookup: a model of stackwalk.c\<close>

subsection \<open>Memory: the snapshot, the heap of address arrays, pointers\<close>

text \<open>
  The functions of stackwalk.c write instruction and stack pointers (\<open>uintptr_t\<close>, here
  the type variable \<open>'a\<close>) through raw pointers. Two kinds of storage can be reached:
  the snapshot array \<open>jl_bt_data\<close> with its length \<open>jl_bt_size\<close>, and every other array
  of addresses (a caller's buffer, the data of a \<open>jl_array_t\<close>), kept in \<open>heap\<close> under an
  object number. \<open>next_obj\<close> is the allocator's next free object number and
  \<open>array_ptr_void_type\<close> the file's lazily initialised static (\<open>False\<close> is \<open>NULL\<close>).
\<close>

record 'a runtime =
  jl_bt_data :: "'a list"
  jl_bt_size :: nat
  heap :: "nat \<Rightarrow> 'a list option"
  next_obj :: nat
  array_ptr_void_type :: bool

text \<open>
  A \<open>uintptr_t *\<close>: element \<open>i\<close> of the snapshot array, or element \<open>i\<close> of heap object
  \<open>b\<close>. \<open>ptr_add p n\<close> is \<open>p + n\<close>, \<open>store p v\<close> is \<open>*p = v\<close>, and \<open>cells s p\<close> lists
  what can be read from \<open>p\<close> up to the end of its array. A store outside the array is
  undefined behaviour in C; the model leaves memory as it is there, and the theorems
  below assume the buffers are large enough.
\<close>

datatype ptr = Bt_data nat | Obj nat nat

fun ptr_add :: "ptr \<Rightarrow> nat \<Rightarrow> ptr" where
  "ptr_add (Bt_data i) n = Bt_data (i + n)"
| "ptr_add (Obj b i) n = Obj b (i + n)"

fun store :: "ptr \<Rightarrow> 'a \<Rightarrow> 'a runtime \<Rightarrow> 'a runtime" where
  "store (Bt_data i) v s = s\<lparr>jl_bt_data := (jl_bt_data s)[i := v]\<rparr>"
| "store (Obj b i) v s =
     s\<lparr>heap := (heap s)(b := map_option (\<lambda>xs. xs[i := v]) (heap s b))\<rparr>"

fun cells :: "'a runtime \<Rightarrow> ptr \<Rightarrow> 'a list" where
  "cells s (Bt_data i) = drop i (jl_bt_data s)"
| "cells s (Obj b i) = (case heap s b of None \<Rightarrow> [] | Some xs \<Rightarrow> drop i xs)"

text \<open>Whether two pointers point into the same array.\<close>

fun same_array :: "ptr \<Rightarrow> ptr \<Rightarrow> bool" where
  "same_array (Bt_data i) (Bt_data j) = True"
| "same_array (Obj b i) (Obj b' j) = (b = b')"
| "same_array (Bt_data i) (Obj b j) = False"
| "same_array (Obj b i) (Bt_data j) = False"

fun apart :: "ptr option \<Rightarrow> ptr \<Rightarrow> bool" where
  "apart None q = True"
| "apart (Some p) q = (\<not> same_array p q)"

text \<open>The second output of a step goes to \<open>&sp[n]\<close>, or to the local \<open>nullsp\<close> when the
  caller passed no stack-pointer buffer (\<open>None\<close>); the local is never read.\<close>

fun store_sp :: "ptr option \<Rightarrow> nat \<Rightarrow> 'a \<Rightarrow> 'a runtime \<Rightarrow> 'a runtime" where
  "store_sp None n v s = s"
| "store_sp (Some sp) n v s = store (ptr_add sp n) v s"

subsection \<open>The backend adapter\<close>

text \<open>
  One call of \<open>jl_unw_step(cursor, ip, sp)\<close>, as its caller sees it: the value stored
  through \<open>ip\<close> and the value stored through \<open>sp\<close> (\<open>None\<close> when the call did not get
  that far), the value returned (\<open>None\<close> when the call read an invalid address, so that
  the signal handler jumps to \<open>jl_safe_restore\<close>), and the cursor afterwards.
  \<open>jl_unw_init\<close> returns \<open>Some cursor\<close> for 1 and \<open>None\<close> for 0; no caller reads
  the cursor after a 0. The stepping loop and the capture functions take the two
  functions of the backend as parameters \<open>init\<close> and \<open>step\<close>. Two of the file's three
  backends are defined here; of the Windows backend, whose \<open>jl_unw_init\<close> and
  \<open>jl_unw_step\<close> call \<open>StackWalk64\<close>, \<open>RtlVirtualUnwind\<close> and \<open>VirtualQuery\<close>, only the
  two resolution callbacks are modelled, further down.
\<close>

record ('a, 'c) stepped =
  st_ip :: "'a option"
  st_sp :: "'a option"
  st_ret :: "int option"
  st_cursor :: 'c

text \<open>
  The libunwind backend (the last \<open>#else\<close>). libunwind is not part of the file; its
  three entry points are parameters. A call into it either returns or reads an
  invalid address (\<open>Fault\<close>).
\<close>

datatype unw_regnum = UNW_REG_IP | UNW_REG_SP

datatype 'r unw_call = Fault | Done 'r

record ('ctx, 'c, 'a) libunwind =
  unw_init_local :: "'ctx \<Rightarrow> int \<times> 'c"
  unw_get_reg :: "'c \<Rightarrow> unw_regnum \<Rightarrow> (int \<times> 'a) unw_call"
  unw_step :: "'c \<Rightarrow> (int \<times> 'c) unw_call"

definition jl_unw_init_libunwind :: "('ctx, 'c, 'a) libunwind \<Rightarrow> 'ctx \<Rightarrow> 'c option" where
  "jl_unw_init_libunwind lib context =
     (case unw_init_local lib context of (rc, cursor) \<Rightarrow> if rc = 0 then Some cursor else None)"

definition jl_unw_step_libunwind ::
  "('ctx, 'c, 'a) libunwind \<Rightarrow> 'c \<Rightarrow> ('a, 'c) stepped" where
  "jl_unw_step_libunwind lib cursor =
     (case unw_get_reg lib cursor UNW_REG_IP of
        Fault \<Rightarrow> \<lparr>st_ip = None, st_sp = None, st_ret = None, st_cursor = cursor\<rparr>
      | Done (rc, reg) \<Rightarrow>
          if rc < 0
          then \<lparr>st_ip = None, st_sp = None, st_ret = Some 0, st_cursor = cursor\<rparr>
          else
            (case unw_get_reg lib cursor UNW_REG_SP of
               Fault \<Rightarrow> \<lparr>st_ip = Some reg, st_sp = None, st_ret = None, st_cursor = cursor\<rparr>
             | Done (rc', reg') \<Rightarrow>
                 if rc' < 0
                 then \<lparr>st_ip = Some reg, st_sp = None, st_ret = Some 0, st_cursor = cursor\<rparr>
                 else
                   (case unw_step lib cursor of
                      Fault \<Rightarrow>
                        \<lparr>st_ip = Some reg, st_sp = Some reg', st_ret = None,
                         st_cursor = cursor\<rparr>
                    | Done (rc'', cursor') \<Rightarrow>
                        \<lparr>st_ip = Some reg, st_sp = Some reg',
                         st_ret = Some (if rc'' > 0 then 1 else 0),
                         st_cursor = cursor'\<rparr>)))"

text \<open>The stub for ARM (\<open>#elif defined(_CPU_ARM_)\<close>): both functions return 0 at once.\<close>

definition jl_unw_init_arm :: "'ctx \<Rightarrow> 'c option" where
  "jl_unw_init_arm context = None"

definition jl_unw_step_arm :: "'c \<Rightarrow> ('a, 'c) stepped" where
  "jl_unw_step_arm cursor = \<lparr>st_ip = None, st_sp = None, st_ret = Some 0, st_cursor = cursor\<rparr>"

subsection \<open>The stepping loop\<close>

text \<open>
  \<open>jl_unw_stepn\<close> as compiled where \<open>_OS_WINDOWS_\<close> is not defined, that is with the
  \<open>jl_setjmp\<close> guard. \<open>stepn_loop\<close> is the \<open>while (1)\<close>: it ends by a \<open>break\<close> with the
  current \<open>n\<close>, or by the jump out of a faulting step with the current \<open>n\<close> (which is
  \<open>volatile\<close>). \<open>jl_safe_restore\<close> is saved before and restored after on both paths and
  is left out. Counts are \<open>nat\<close>: \<open>n\<close> never exceeds \<open>maxsize\<close> inside the loop, and
  \<open>maxsize + 1\<close> cannot wrap for a capacity that some array of \<open>uintptr_t\<close> has.
\<close>

datatype loop_exit = Break nat | Longjmp nat

function stepn_loop ::
  "('c \<Rightarrow> ('a, 'c) stepped) \<Rightarrow> 'c \<Rightarrow> ptr \<Rightarrow> ptr option \<Rightarrow> nat \<Rightarrow> nat \<Rightarrow> 'a runtime
    \<Rightarrow> loop_exit \<times> 'c \<times> 'a runtime" where
  "stepn_loop step cursor ip sp maxsize n s =
     (if n \<ge> maxsize then (Break maxsize, cursor, s)
      else
        let r = step cursor;
            s1 = (case st_ip r of None \<Rightarrow> s | Some v \<Rightarrow> store (ptr_add ip n) v s);
            s2 = (case st_sp r of None \<Rightarrow> s1 | Some v \<Rightarrow> store_sp sp n v s1)
        in case st_ret r of
             None \<Rightarrow> (Longjmp n, st_cursor r, s2)
           | Some rc \<Rightarrow>
               if rc = 0 then (Break n, st_cursor r, s2)
               else stepn_loop step (st_cursor r) ip sp maxsize (n + 1) s2)"
  by pat_completeness auto
termination
  by (relation "measure (\<lambda>(step, cursor, ip, sp, maxsize, n, s). maxsize - n)") auto

definition jl_unw_stepn ::
  "('c \<Rightarrow> ('a, 'c) stepped) \<Rightarrow> 'c \<Rightarrow> ptr \<Rightarrow> ptr option \<Rightarrow> nat \<Rightarrow> 'a runtime
    \<Rightarrow> nat \<times> 'c \<times> 'a runtime" where
  "jl_unw_stepn step cursor ip sp maxsize s =
     (case stepn_loop step cursor ip sp maxsize 0 s of
        (Break n, cursor', s') \<Rightarrow> (n + 1, cursor', s')
      | (Longjmp n, cursor', s') \<Rightarrow> ((if n > 0 then n - 1 else n), cursor', s'))"

subsection \<open>Bounded capture\<close>

definition rec_backtrace_ctx ::
  "('ctx \<Rightarrow> 'c option) \<Rightarrow> ('c \<Rightarrow> ('a, 'c) stepped) \<Rightarrow> ptr \<Rightarrow> nat \<Rightarrow> 'ctx \<Rightarrow> 'a runtime
    \<Rightarrow> nat \<times> 'a runtime" where
  "rec_backtrace_ctx init step data maxsize context s =
     (case init context of
        None \<Rightarrow> (0, s)
      | Some cursor \<Rightarrow>
          (case jl_unw_stepn step cursor data None maxsize s of
             (n, cursor', s') \<Rightarrow> ((if n > maxsize then maxsize else n), s')))"

text \<open>\<open>jl_unw_get\<close> is the platform's context capture; what it stores into the zeroed
  \<open>context\<close> is the parameter \<open>here\<close>.\<close>

definition rec_backtrace ::
  "('ctx \<Rightarrow> 'c option) \<Rightarrow> ('c \<Rightarrow> ('a, 'c) stepped) \<Rightarrow> 'ctx \<Rightarrow> ptr \<Rightarrow> nat \<Rightarrow> 'a runtime
    \<Rightarrow> nat \<times> 'a runtime" where
  "rec_backtrace init step here data maxsize s =
     rec_backtrace_ctx init step data maxsize here s"

subsection \<open>Growable capture\<close>

text \<open>
  Modelled from the spec: the growable-buffer primitive of the host runtime
  (\<open>jl_alloc_array_1d\<close>, \<open>jl_array_grow_end\<close>, \<open>jl_array_del_end\<close> and
  \<open>jl_array_data\<close> live in array.c, which is not among the sources). An array is a heap
  object; allocation takes the next free object number, \<open>grow_by(n)\<close> appends \<open>n\<close>
  elements, \<open>shrink_by(n)\<close> removes the last \<open>n\<close>, and the raw pointer to element
  \<open>i\<close> of array \<open>a\<close> is \<open>Obj a i\<close>. New elements are not initialised by the runtime;
  \<open>fill\<close> stands for what they hold.
\<close>

definition jl_alloc_array_1d :: "nat \<Rightarrow> 'a \<Rightarrow> 'a runtime \<Rightarrow> nat \<times> 'a runtime" where
  "jl_alloc_array_1d nr fill s =
     (next_obj s,
      s\<lparr>heap := (heap s)(next_obj s := Some (replicate nr fill)), next_obj := next_obj s + 1\<rparr>)"

definition jl_array_grow_end :: "nat \<Rightarrow> nat \<Rightarrow> 'a \<Rightarrow> 'a runtime \<Rightarrow> 'a runtime" where
  "jl_array_grow_end a inc fill s =
     s\<lparr>heap := (heap s)(a := map_option (\<lambda>xs. xs @ replicate inc fill) (heap s a))\<rparr>"

definition jl_array_del_end :: "nat \<Rightarrow> nat \<Rightarrow> 'a runtime \<Rightarrow> 'a runtime" where
  "jl_array_del_end a dec s =
     s\<lparr>heap := (heap s)(a := map_option (\<lambda>xs. take (length xs - dec) xs) (heap s a))\<rparr>"

text \<open>Both capture entry points that build arrays start with the same lazy
  initialisation of the static \<open>array_ptr_void_type\<close>.\<close>

definition init_array_ptr_void_type :: "'a runtime \<Rightarrow> 'a runtime" where
  "init_array_ptr_void_type s =
     (if \<not> array_ptr_void_type s then s\<lparr>array_ptr_void_type := True\<rparr> else s)"

text \<open>The value returned by \<open>jl_backtrace_from_here\<close>: the array \<open>ip\<close>, or the pair
  \<open>jl_svec2(ip, sp)\<close>.\<close>

datatype bt_value = Ips nat | Ips_Sps nat nat

fun bt_result :: "nat \<Rightarrow> nat option \<Rightarrow> bt_value" where
  "bt_result ip None = Ips ip"
| "bt_result ip (Some sp) = Ips_Sps ip sp"

text \<open>
  The \<open>do ... while (n > maxincr)\<close> of \<open>jl_backtrace_from_here\<close>. Nothing bounds the
  number of rounds (a backend whose steps always succeed keeps it going), so the loop
  is a partial function and \<open>None\<close> means that it does not return. \<open>sp\<close> is \<open>None\<close>
  for the \<open>NULL\<close> that the function keeps when \<open>returnsp\<close> is 0, so the tests of
  \<open>returnsp\<close> inside the loop are tests of \<open>sp\<close>.
\<close>

partial_function (option) from_here_loop ::
  "('c \<Rightarrow> ('a, 'c) stepped) \<Rightarrow> nat \<Rightarrow> 'a \<Rightarrow> nat \<Rightarrow> nat option \<Rightarrow> 'c \<Rightarrow> nat \<Rightarrow> 'a runtime
    \<Rightarrow> (nat \<times> 'a runtime) option" where
  "from_here_loop step maxincr fill ip sp cursor offset s =
     (let s1 = jl_array_grow_end ip maxincr fill s;
          s2 = (case sp of None \<Rightarrow> s1 | Some spa \<Rightarrow> jl_array_grow_end spa maxincr fill s1)
      in case jl_unw_stepn step cursor (Obj ip offset)
                (case sp of None \<Rightarrow> None | Some spa \<Rightarrow> Some (Obj spa offset)) maxincr s2 of
           (n, cursor', s3) \<Rightarrow>
             if n > maxincr
             then from_here_loop step maxincr fill ip sp cursor' (offset + maxincr) s3
             else Some (n, s3))"

text \<open>The function with its increment as a parameter, and the function itself, whose
  increment is the constant 1000.\<close>

definition backtrace_from_here_incr ::
  "nat \<Rightarrow> ('ctx \<Rightarrow> 'c option) \<Rightarrow> ('c \<Rightarrow> ('a, 'c) stepped) \<Rightarrow> 'ctx \<Rightarrow> 'a \<Rightarrow> int \<Rightarrow> 'a runtime
    \<Rightarrow> (bt_value \<times> 'a runtime) option" where
  "backtrace_from_here_incr maxincr init step here fill returnsp s =
     (let s0 = init_array_ptr_void_type s;
          (ip, s1) = jl_alloc_array_1d 0 fill s0;
          (sp, s2) = (if returnsp \<noteq> 0
                      then (case jl_alloc_array_1d 0 fill s1 of (a, t) \<Rightarrow> (Some a, t))
                      else (None, s1))
      in case init here of
           None \<Rightarrow> Some (bt_result ip sp, s2)
         | Some cursor \<Rightarrow>
             (case from_here_loop step maxincr fill ip sp cursor 0 s2 of
                None \<Rightarrow> None
              | Some (n, s3) \<Rightarrow>
                  let s4 = jl_array_del_end ip (maxincr - n) s3;
                      s5 = (case sp of None \<Rightarrow> s4
                            | Some spa \<Rightarrow> jl_array_del_end spa (maxincr - n) s4)
                  in Some (bt_result ip sp, s5)))"

definition jl_backtrace_from_here ::
  "('ctx \<Rightarrow> 'c option) \<Rightarrow> ('c \<Rightarrow> ('a, 'c) stepped) \<Rightarrow> 'ctx \<Rightarrow> 'a \<Rightarrow> int \<Rightarrow> 'a runtime
    \<Rightarrow> (bt_value \<times> 'a runtime) option" where
  "jl_backtrace_from_here = backtrace_from_here_incr 1000"

subsection \<open>Reading the snapshot\<close>

text \<open>\<open>memcpy(dst, src, n * sizeof(void*))\<close> on arrays of addresses: the \<open>n\<close> words read
  at \<open>src\<close> are stored one after the other from \<open>dst\<close> on.\<close>

fun store_list :: "ptr \<Rightarrow> 'a list \<Rightarrow> 'a runtime \<Rightarrow> 'a runtime" where
  "store_list p [] s = s"
| "store_list p (v # vs) s = store_list (ptr_add p 1) vs (store p v s)"

definition memcpy :: "ptr \<Rightarrow> ptr \<Rightarrow> nat \<Rightarrow> 'a runtime \<Rightarrow> 'a runtime" where
  "memcpy dst src n s = store_list dst (take n (cells s src)) s"

definition jl_get_backtrace :: "'a \<Rightarrow> 'a runtime \<Rightarrow> nat \<times> 'a runtime" where
  "jl_get_backtrace fill s =
     (let s0 = init_array_ptr_void_type s;
          (bt, s1) = jl_alloc_array_1d (jl_bt_size s0) fill s0
      in (bt, memcpy (Obj bt 0) (Bt_data 0) (jl_bt_size s1) s1))"

subsection \<open>Symbolication\<close>

text \<open>
  \<open>jl_frame_t\<close> is declared in a header that is not among the sources; its fields are
  taken from their uses. A \<open>char *\<close> is \<open>None\<close> when it is \<open>NULL\<close>, and so is \<open>linfo\<close>.
  \<open>jl_getFunctionInfo(&frames, ip, skipC, noInline)\<close> is the code-info lookup service of
  debuginfo.cpp: a parameter that maps the three arguments to the frames it returns,
  whose number is its return value \<open>n\<close>. The calls of \<open>jl_gc_safe_enter\<close>,
  \<open>jl_gc_safe_leave\<close> and \<open>free\<close> change nothing that is modelled and are left out.
\<close>

record 'l jl_frame_t =
  func_name :: "string option"
  file_name :: "string option"
  line :: int
  linfo :: "'l option"
  fromC :: int
  inlined :: int

type_synonym ('w, 'l) code_info = "'w word \<Rightarrow> int \<Rightarrow> int \<Rightarrow> 'l jl_frame_t list"

text \<open>The values that \<open>jl_lookup_code_address\<close> builds: symbols, boxed integers and
  booleans, \<open>jl_nothing\<close>, a code unit, simple vectors, and the \<open>NULL\<close> of a slot of a new
  simple vector that has not been set.\<close>

datatype 'l jl_value =
    JL_NULL
  | JL_symbol string
  | JL_long int
  | JL_bool bool
  | JL_nothing
  | JL_linfo 'l
  | JL_svec "'l jl_value list"

definition jl_alloc_svec :: "nat \<Rightarrow> 'l jl_value list" where
  "jl_alloc_svec n = replicate n JL_NULL"

definition jl_svecset :: "'l jl_value list \<Rightarrow> nat \<Rightarrow> 'l jl_value \<Rightarrow> 'l jl_value list" where
  "jl_svecset t i x = t[i := x]"

definition empty_sym :: "'l jl_value" where
  "empty_sym = JL_symbol []"

text \<open>The body of the \<open>for\<close> loop of \<open>jl_lookup_code_address\<close>: the 7-slot vector built
  for one frame. \<open>(intptr_t)ip\<close> is the signed reading of the address.\<close>

definition lookup_row :: "'w::len word \<Rightarrow> 'l jl_frame_t \<Rightarrow> 'l jl_value" where
  "lookup_row ip frame =
     (let r = jl_alloc_svec 7;
          r = jl_svecset r 0
                (case func_name frame of Some f \<Rightarrow> JL_symbol f | None \<Rightarrow> empty_sym);
          r = jl_svecset r 1
                (case file_name frame of Some f \<Rightarrow> JL_symbol f | None \<Rightarrow> empty_sym);
          r = jl_svecset r 2 (JL_long (line frame));
          r = jl_svecset r 3 (case linfo frame of Some l \<Rightarrow> JL_linfo l | None \<Rightarrow> JL_nothing);
          r = jl_svecset r 4 (JL_bool (fromC frame \<noteq> 0));
          r = jl_svecset r 5 (JL_bool (inlined frame \<noteq> 0));
          r = jl_svecset r 6 (JL_long (sint ip))
      in JL_svec r)"

definition jl_lookup_code_address :: "('w::len, 'l) code_info \<Rightarrow> 'w word \<Rightarrow> int \<Rightarrow> 'l jl_value" where
  "jl_lookup_code_address jl_getFunctionInfo ip skipC =
     JL_svec (map (lookup_row ip) (jl_getFunctionInfo ip skipC 0))"

subsection \<open>The diagnostic printer\<close>

text \<open>
  \<open>jl_safe_printf\<close> is not among the sources. Its output is modelled as the list of the
  strings printed, one per call, and the conversions are rendered as glibc does:
  \<open>%s\<close> prints the text (\<open>(null)\<close> for \<open>NULL\<close>), \<open>PRIuPTR\<close> the decimal digits of the
  value converted to \<open>uintptr_t\<close>, \<open>%p\<close> the hexadecimal digits after \<open>0x\<close> (\<open>(nil)\<close> for 0).
\<close>

definition digit_char :: "nat \<Rightarrow> char" where
  "digit_char d = ''0123456789abcdef'' ! d"

function radix :: "nat \<Rightarrow> nat \<Rightarrow> string" where
  "radix b n =
     (if b < 2 \<or> n < b then [digit_char n] else radix b (n div b) @ [digit_char (n mod b)])"
  by pat_completeness auto
termination
  by (relation "measure snd") auto

definition fmt_s :: "string option \<Rightarrow> string" where
  "fmt_s t = (case t of None \<Rightarrow> ''(null)'' | Some x \<Rightarrow> x)"

definition fmt_uptr :: "'w::len word \<Rightarrow> string" where
  "fmt_uptr x = radix 10 (unat x)"

definition fmt_p :: "'w::len word \<Rightarrow> string" where
  "fmt_p x = (if x = 0 then ''(nil)'' else ''0x'' @ radix 16 (unat x))"

text \<open>The line printed for one frame by the loop body of \<open>jl_gdblookup\<close>.\<close>

definition gdb_line :: "'w::len word \<Rightarrow> 'l jl_frame_t \<Rightarrow> string" where
  "gdb_line ip frame =
     (case func_name frame of
        None \<Rightarrow> ''unknown function (ip: '' @ fmt_p ip @ '')'' @ [CHR 0x0A]
      | Some f \<Rightarrow>
          if line frame \<noteq> - 1
          then f @ '' at '' @ fmt_s (file_name frame) @ '':''
                 @ fmt_uptr (word_of_int (line frame) :: 'w word) @ [CHR 0x0A]
          else f @ '' at '' @ fmt_s (file_name frame) @ '' (unknown line)'' @ [CHR 0x0A])"

fun gdblookup_loop :: "'w::len word \<Rightarrow> 'l jl_frame_t list \<Rightarrow> string list \<Rightarrow> string list" where
  "gdblookup_loop ip [] out = out"
| "gdblookup_loop ip (frame # frames) out = gdblookup_loop ip frames (out @ [gdb_line ip frame])"

definition jl_gdblookup :: "('w::len, 'l) code_info \<Rightarrow> 'w word \<Rightarrow> string list \<Rightarrow> string list" where
  "jl_gdblookup jl_getFunctionInfo ip out = gdblookup_loop ip (jl_getFunctionInfo ip 0 1) out"

text \<open>\<open>jlbacktrace\<close>: the loop over \<open>i < jl_bt_size\<close>, from \<open>i\<close> on.\<close>

function jlbacktrace_loop ::
  "('w::len, 'l) code_info \<Rightarrow> 'w word runtime \<Rightarrow> nat \<Rightarrow> nat \<Rightarrow> string list \<Rightarrow> string list" where
  "jlbacktrace_loop jl_getFunctionInfo s n i out =
     (if i < n
      then jlbacktrace_loop jl_getFunctionInfo s n (i + 1)
             (jl_gdblookup jl_getFunctionInfo (jl_bt_data s ! i - 1) out)
      else out)"
  by pat_completeness auto
termination
  by (relation "measure (\<lambda>(g, s, n, i, out). n - i)") auto

definition jlbacktrace :: "('w::len, 'l) code_info \<Rightarrow> 'w word runtime \<Rightarrow> string list \<Rightarrow> string list" where
  "jlbacktrace jl_getFunctionInfo s out = jlbacktrace_loop jl_getFunctionInfo s (jl_bt_size s) 0 out"

subsection \<open>The resolution callbacks of the Windows backend\<close>

text \<open>
  The state the two callbacks touch: the flag \<open>jl_in_stackwalk\<close>, the static
  \<open>HistoryTable\<close> (an \<open>UNWIND_HISTORY_TABLE\<close> where \<open>_CPU_X86_64_\<close> is defined, else the
  pair \<open>dwAddr\<close>, \<open>ImageBase\<close>), and the state of the debug-help library. The services
  of the operating system and \<open>jl_getUnwindInfo\<close> are parameters; a debug-help call
  sees the whole state, the flag included, and returns the state it leaves.
  \<open>RtlLookupFunctionEntry\<close> returns the function entry (0 for \<open>NULL\<close>) and the image
  base. The argument \<open>x64\<close> says whether \<open>_CPU_X86_64_\<close> is defined.
\<close>

record ('h, 'd) win =
  jl_in_stackwalk :: int
  HistoryTable :: 'h
  HistoryTable_dwAddr :: "64 word"
  HistoryTable_ImageBase :: "64 word"
  dbghelp :: 'd

record ('h, 'd, 'p) winapi =
  RtlLookupFunctionEntry :: "64 word \<Rightarrow> 'h \<Rightarrow> (64 word \<times> 64 word) \<times> 'h"
  SymFunctionTableAccess64 :: "'p \<Rightarrow> 64 word \<Rightarrow> ('h, 'd) win \<Rightarrow> 64 word \<times> ('h, 'd) win"
  SymGetModuleBase64 :: "'p \<Rightarrow> 64 word \<Rightarrow> ('h, 'd) win \<Rightarrow> 64 word \<times> ('h, 'd) win"
  jl_getUnwindInfo :: "64 word \<Rightarrow> 64 word"

definition JuliaFunctionTableAccess64 ::
  "bool \<Rightarrow> ('h, 'd, 'p) winapi \<Rightarrow> 'p \<Rightarrow> 64 word \<Rightarrow> ('h, 'd) win \<Rightarrow> 64 word \<times> ('h, 'd) win" where
  "JuliaFunctionTableAccess64 x64 api hProcess AddrBase w =
     (if x64 then
        (case RtlLookupFunctionEntry api AddrBase (HistoryTable w) of
           ((fn, ImageBase), h) \<Rightarrow>
             let w1 = w\<lparr>HistoryTable := h\<rparr> in
             if fn \<noteq> 0 then (fn, w1)
             else if jl_in_stackwalk w1 \<noteq> 0 then (0, w1)
             else
               (case SymFunctionTableAccess64 api hProcess AddrBase (w1\<lparr>jl_in_stackwalk := 1\<rparr>) of
                  (ftable, w2) \<Rightarrow> (ftable, w2\<lparr>jl_in_stackwalk := 0\<rparr>)))
      else SymFunctionTableAccess64 api hProcess AddrBase w)"

definition JuliaGetModuleBase64 ::
  "bool \<Rightarrow> ('h, 'd, 'p) winapi \<Rightarrow> 'p \<Rightarrow> 64 word \<Rightarrow> ('h, 'd) win \<Rightarrow> 64 word \<times> ('h, 'd) win" where
  "JuliaGetModuleBase64 x64 api hProcess dwAddr w =
     (if x64 then
        (case RtlLookupFunctionEntry api dwAddr (HistoryTable w) of
           ((fn, ImageBase), h) \<Rightarrow>
             let w1 = w\<lparr>HistoryTable := h\<rparr> in
             if fn \<noteq> 0 then (ImageBase, w1)
             else if jl_in_stackwalk w1 \<noteq> 0 then (0, w1)
             else
               (case SymGetModuleBase64 api hProcess dwAddr (w1\<lparr>jl_in_stackwalk := 1\<rparr>) of
                  (fbase, w2) \<Rightarrow> (fbase, w2\<lparr>jl_in_stackwalk := 0\<rparr>)))
      else if dwAddr = HistoryTable_dwAddr w then (HistoryTable_ImageBase w, w)
      else
        let ImageBase = jl_getUnwindInfo api dwAddr in
        if ImageBase \<noteq> 0
        then (ImageBase, w\<lparr>HistoryTable_dwAddr := dwAddr, HistoryTable_ImageBase := ImageBase\<rparr>)
        else SymGetModuleBase64 api hProcess dwAddr w)"

subsection \<open>Walks of known depth\<close>

text \<open>
  A walk and its depth. A frame is a pair (instruction pointer, stack pointer).
  \<open>advance step c fs\<close> runs one step per frame of \<open>fs\<close> from cursor \<open>c\<close>: each must store
  the frame's two addresses and return nonzero (more frames follow); the result is the
  cursor reached. \<open>walk step c fs\<close> says that the walk from \<open>c\<close> has exactly the frames
  \<open>fs\<close>: all but the last advance, and the step on the last frame stores it and returns 0.
\<close>

fun advance :: "('c \<Rightarrow> ('a, 'c) stepped) \<Rightarrow> 'c \<Rightarrow> ('a \<times> 'a) list \<Rightarrow> 'c option" where
  "advance step c [] = Some c"
| "advance step c (f # fs) =
     (let r = step c in
      if st_ip r = Some (fst f) \<and> st_sp r = Some (snd f)
         \<and> (case st_ret r of None \<Rightarrow> False | Some rc \<Rightarrow> rc \<noteq> 0)
      then advance step (st_cursor r) fs
      else None)"

definition last_step :: "('c \<Rightarrow> ('a, 'c) stepped) \<Rightarrow> 'c \<Rightarrow> 'a \<times> 'a \<Rightarrow> bool" where
  "last_step step c f =
     (let r = step c in st_ip r = Some (fst f) \<and> st_sp r = Some (snd f) \<and> st_ret r = Some 0)"

definition walk :: "('c \<Rightarrow> ('a, 'c) stepped) \<Rightarrow> 'c \<Rightarrow> ('a \<times> 'a) list \<Rightarrow> bool" where
  "walk step c fs =
     (fs \<noteq> [] \<and>
      (case advance step c (butlast fs) of
         None \<Rightarrow> False
       | Some c' \<Rightarrow> last_step step c' (last fs)))"

text \<open>The stores that the stepping loop makes for the frames \<open>fs\<close>, the first of them
  at index \<open>n\<close>: for each frame the store through \<open>ip\<close>, then the one through \<open>sp\<close>.\<close>

fun write_frames :: "ptr \<Rightarrow> ptr option \<Rightarrow> nat \<Rightarrow> ('a \<times> 'a) list \<Rightarrow> 'a runtime \<Rightarrow> 'a runtime" where
  "write_frames ip sp n [] s = s"
| "write_frames ip sp n (f # fs) s =
     write_frames ip sp (n + 1) fs (store_sp sp n (snd f) (store (ptr_add ip n) (fst f) s))"

text \<open>
  A synthetic libunwind for concrete walks: context and cursor are the list of the
  frames still to be visited, innermost first. \<open>Bad\<close> is a frame whose registers
  cannot be read without touching an invalid address, and \<open>Unreadable\<close> a frame for
  which \<open>unw_get_reg\<close> returns an error code. \<open>syn_frames\<close> makes the context of a
  walk from its frames.
\<close>

datatype syn_frame = Frame "64 word" "64 word" | Bad | Unreadable

definition syn_get_reg :: "syn_frame list \<Rightarrow> unw_regnum \<Rightarrow> (int \<times> 64 word) unw_call" where
  "syn_get_reg c r =
     (case c of
        [] \<Rightarrow> Done (- 1, 0)
      | Bad # rest \<Rightarrow> Fault
      | Unreadable # rest \<Rightarrow> Done (- 1, 0)
      | Frame i p # rest \<Rightarrow> Done (0, case r of UNW_REG_IP \<Rightarrow> i | UNW_REG_SP \<Rightarrow> p))"

definition syn_step :: "syn_frame list \<Rightarrow> (int \<times> syn_frame list) unw_call" where
  "syn_step c =
     (case c of
        [] \<Rightarrow> Done (- 1, [])
      | Bad # rest \<Rightarrow> Fault
      | Unreadable # rest \<Rightarrow> Done (- 1, rest)
      | Frame i p # rest \<Rightarrow> Done ((if rest = [] then 0 else 1), rest))"

definition syn_lib :: "(syn_frame list, syn_frame list, 64 word) libunwind" where
  "syn_lib =
     \<lparr>unw_init_local = (\<lambda>ctx. ((if ctx = [] then - 1 else 0), ctx)),
      unw_get_reg = syn_get_reg,
      unw_step = syn_step\<rparr>"

definition syn_frames :: "(64 word \<times> 64 word) list \<Rightarrow> syn_frame list" where
  "syn_frames fs = map (\<lambda>f. Frame (fst f) (snd f)) fs"

text \<open>A runtime whose snapshot holds \<open>bt\<close> and whose heap has one object, number 0,
  a caller's buffer \<open>buf\<close>.\<close>

definition runtime0 :: "'a list \<Rightarrow> 'a list \<Rightarrow> 'a runtime" where
  "runtime0 bt buf =
     \<lparr>jl_bt_data = bt, jl_bt_size = length bt, heap = (\<lambda>b. None)(0 := Some buf),
      next_obj = 1, array_ptr_void_type = False\<rparr>"

subsection \<open>Services for concrete lookups\<close>

text \<open>
  Three code-info services for the address type of a 64-bit build: one that returns a
  single frame without names and with the line -1 whatever the address, one that returns
  no frame, and one that returns an inlined frame before its caller unless \<open>noInline\<close>
  is set.
\<close>

definition svc_unknown :: "(64, unit) code_info" where
  "svc_unknown ip skipC noInline =
     [\<lparr>func_name = None, file_name = None, line = - 1, linfo = None, fromC = 1, inlined = 0\<rparr>]"

definition svc_none :: "(64, unit) code_info" where
  "svc_none ip skipC noInline = []"

definition svc_inline :: "(64, unit) code_info" where
  "svc_inline ip skipC noInline =
     (if noInline = 0
      then [\<lparr>func_name = Some ''inner'', file_name = Some ''g.jl'', line = 7, linfo = None,
             fromC = 0, inlined = 1\<rparr>,
            \<lparr>func_name = Some ''outer'', file_name = Some ''f.jl'', line = 3, linfo = None,
             fromC = 0, inlined = 0\<rparr>]
      else [\<lparr>func_name = Some ''outer'', file_name = Some ''f.jl'', line = 3, linfo = None,
             fromC = 0, inlined = 0\<rparr>])"

text \<open>
  Two tables of Windows services: in the first \<open>RtlLookupFunctionEntry\<close> finds an
  entry for every address; in the second it finds none, and the two debug-help calls
  push the flag they see onto the library's state, a list. \<open>win0 flag d\<close> is the
  state with the given flag and library state.
\<close>

definition api_found :: "(unit, unit, unit) winapi" where
  "api_found =
     \<lparr>RtlLookupFunctionEntry = (\<lambda>a h. ((5, 4194304), h)),
      SymFunctionTableAccess64 = (\<lambda>p a w. (7, w)),
      SymGetModuleBase64 = (\<lambda>p a w. (7, w)),
      jl_getUnwindInfo = (\<lambda>a. 0)\<rparr>"

definition api_missing :: "(unit, int list, unit) winapi" where
  "api_missing =
     \<lparr>RtlLookupFunctionEntry = (\<lambda>a h. ((0, 0), h)),
      SymFunctionTableAccess64 = (\<lambda>p a w. (7, w\<lparr>dbghelp := jl_in_stackwalk w # dbghelp w\<rparr>)),
      SymGetModuleBase64 = (\<lambda>p a w. (9, w\<lparr>dbghelp := jl_in_stackwalk w # dbghelp w\<rparr>)),
      jl_getUnwindInfo = (\<lambda>a. 0)\<rparr>"

definition win0 :: "int \<Rightarrow> 'd \<Rightarrow> (unit, 'd) win" where
  "win0 flag d =
     \<lparr>jl_in_stackwalk = flag, HistoryTable = (), HistoryTable_dwAddr = 0,
      HistoryTable_ImageBase = 0, dbghelp = d\<rparr>"

section \<open>Properties\<close>

subsection \<open>Stores and the stepping loop\<close>

declare stepn_loop.simps [simp del]

lemma store_fields [simp]:
  "jl_bt_size (store p v s) = jl_bt_size s"
  "next_obj (store p v s) = next_obj s"
  "array_ptr_void_type (store p v s) = array_ptr_void_type s"
  by (cases p; simp)+

lemma store_sp_fields [simp]:
  "jl_bt_size (store_sp sp n v s) = jl_bt_size s"
  "next_obj (store_sp sp n v s) = next_obj s"
  "array_ptr_void_type (store_sp sp n v s) = array_ptr_void_type s"
  by (cases sp; simp)+

lemma ptr_add_0 [simp]: "ptr_add p 0 = p"
  by (cases p) simp_all

lemma ptr_add_add [simp]: "ptr_add (ptr_add p m) n = ptr_add p (m + n)"
  by (cases p) simp_all

lemma advance_append:
  "advance step c (xs @ ys) =
     (case advance step c xs of None \<Rightarrow> None | Some c' \<Rightarrow> advance step c' ys)"
  by (induction xs arbitrary: c) (simp_all add: Let_def)

lemma stepn_loop_advance:
  "advance step c fs = Some c' \<Longrightarrow> n + length fs \<le> maxsize \<Longrightarrow>
   stepn_loop step c ip sp maxsize n s =
     stepn_loop step c' ip sp maxsize (n + length fs) (write_frames ip sp n fs s)"
proof (induction fs arbitrary: c n s)
  case Nil
  then show ?case by simp
next
  case (Cons f fs)
  let ?r = "step c"
  from Cons.prems(1) have ok: "st_ip ?r = Some (fst f)" "st_sp ?r = Some (snd f)"
    and ret: "\<exists>rc. st_ret ?r = Some rc \<and> rc \<noteq> 0"
    and adv: "advance step (st_cursor ?r) fs = Some c'"
    by (auto simp: Let_def split: if_splits option.splits)
  from ret obtain rc where rc: "st_ret ?r = Some rc" "rc \<noteq> 0" by blast
  from Cons.prems(2) have lt: "n < maxsize" and le: "Suc n + length fs \<le> maxsize" by simp_all
  have "stepn_loop step c ip sp maxsize n s =
        stepn_loop step (st_cursor ?r) ip sp maxsize (n + 1)
          (store_sp sp n (snd f) (store (ptr_add ip n) (fst f) s))"
    using lt ok rc by (subst stepn_loop.simps) (simp add: Let_def)
  also have "\<dots> = stepn_loop step c' ip sp maxsize (n + 1 + length fs)
          (write_frames ip sp (n + 1) fs (store_sp sp n (snd f) (store (ptr_add ip n) (fst f) s)))"
    using Cons.IH [OF adv, of "n + 1"] le by simp
  finally show ?case by simp
qed

lemma stepn_truncated:
  assumes "advance step c fs = Some c'" and "length fs = maxsize"
  shows "jl_unw_stepn step c ip sp maxsize s = (maxsize + 1, c', write_frames ip sp 0 fs s)"
proof -
  have "stepn_loop step c ip sp maxsize 0 s =
        stepn_loop step c' ip sp maxsize (0 + length fs) (write_frames ip sp 0 fs s)"
    using assms by (intro stepn_loop_advance) simp_all
  also have "\<dots> = (Break maxsize, c', write_frames ip sp 0 fs s)"
    using assms(2) by (subst stepn_loop.simps) simp
  finally show ?thesis by (simp add: jl_unw_stepn_def)
qed

lemma stepn_ended:
  assumes "advance step c fs = Some c'" and "length fs < maxsize"
    and "st_ret (step c') = Some 0"
  shows "jl_unw_stepn step c ip sp maxsize s =
     (length fs + 1, st_cursor (step c'),
      (case st_sp (step c') of None \<Rightarrow> (\<lambda>t. t) | Some v \<Rightarrow> store_sp sp (length fs) v)
        ((case st_ip (step c') of None \<Rightarrow> (\<lambda>t. t) | Some v \<Rightarrow> store (ptr_add ip (length fs)) v)
          (write_frames ip sp 0 fs s)))"
proof -
  have "stepn_loop step c ip sp maxsize 0 s =
        stepn_loop step c' ip sp maxsize (0 + length fs) (write_frames ip sp 0 fs s)"
    using assms by (intro stepn_loop_advance) simp_all
  then show ?thesis
    using assms(2,3)
    by (subst (asm) (2) stepn_loop.simps)
       (simp add: jl_unw_stepn_def Let_def split: option.splits)
qed

lemma stepn_faulted:
  assumes "advance step c fs = Some c'" and "length fs < maxsize"
    and "st_ret (step c') = None"
  shows "fst (jl_unw_stepn step c ip sp maxsize s) = length fs - 1"
proof -
  have "stepn_loop step c ip sp maxsize 0 s =
        stepn_loop step c' ip sp maxsize (0 + length fs) (write_frames ip sp 0 fs s)"
    using assms by (intro stepn_loop_advance) simp_all
  then show ?thesis
    using assms(2,3)
    by (subst (asm) (2) stepn_loop.simps)
       (simp add: jl_unw_stepn_def Let_def split: option.splits)
qed


lemma same_array_ptr_add [simp]:
  "same_array (ptr_add p n) q = same_array p q"
  "same_array p (ptr_add q n) = same_array p q"
  by (cases p; cases q; simp)+

lemma same_array_refl [simp]: "same_array p p"
  by (cases p) simp_all

lemma cells_store_same: "cells (store (ptr_add p n) v s) p = (cells s p)[n := v]"
  by (cases p) (simp_all add: drop_update_swap split: option.splits)

lemma cells_store_other: "\<not> same_array p q \<Longrightarrow> cells (store p v s) q = cells s q"
  by (cases p; cases q) simp_all

lemma cells_store_sp_other: "apart sp q \<Longrightarrow> cells (store_sp sp n v s) q = cells s q"
  by (cases sp) (simp_all add: cells_store_other)

lemma cells_store_sp_same: "cells (store_sp (Some q) n v s) q = (cells s q)[n := v]"
  by (simp add: cells_store_same)

lemma patch_step:
  assumes "n < length xs"
  shows "take (Suc n) (xs[n := u]) @ ys @ drop (Suc n + k) (xs[n := u]) =
         take n xs @ u # ys @ drop (n + Suc k) xs"
  using assms by (simp add: take_Suc_conv_app_nth)

lemma cells_write_frames_ip:
  "apart sp ip \<Longrightarrow> n + length fs \<le> length (cells s ip) \<Longrightarrow>
   cells (write_frames ip sp n fs s) ip =
     take n (cells s ip) @ map fst fs @ drop (n + length fs) (cells s ip)"
proof (induction fs arbitrary: n s)
  case Nil
  then show ?case by simp
next
  case (Cons f fs)
  let ?s = "store_sp sp n (snd f) (store (ptr_add ip n) (fst f) s)"
  have c: "cells ?s ip = (cells s ip)[n := fst f]"
    using Cons.prems(1) by (simp add: cells_store_sp_other cells_store_same)
  have "cells (write_frames ip sp (n + 1) fs ?s) ip =
        take (n + 1) (cells ?s ip) @ map fst fs @ drop (n + 1 + length fs) (cells ?s ip)"
    using Cons.prems by (intro Cons.IH) (simp_all add: c)
  then show ?case
    using Cons.prems(2) by (simp add: c take_Suc_conv_app_nth)
qed

lemma cells_write_frames_sp:
  "\<not> same_array ip q \<Longrightarrow> n + length fs \<le> length (cells s q) \<Longrightarrow>
   cells (write_frames ip (Some q) n fs s) q =
     take n (cells s q) @ map snd fs @ drop (n + length fs) (cells s q)"
proof (induction fs arbitrary: n s)
  case Nil
  then show ?case by simp
next
  case (Cons f fs)
  let ?s = "store (ptr_add q n) (snd f) (store (ptr_add ip n) (fst f) s)"
  have c: "cells ?s q = (cells s q)[n := snd f]"
    using Cons.prems(1) by (simp add: cells_store_other cells_store_same)
  have len: "length (cells ?s q) = length (cells s q)"
    by (simp only: c length_list_update)
  have "cells (write_frames ip (Some q) (n + 1) fs ?s) q =
        take (n + 1) (cells ?s q) @ map snd fs @ drop (n + 1 + length fs) (cells ?s q)"
  proof (rule Cons.IH)
    show "\<not> same_array ip q" by (rule Cons.prems(1))
    show "n + 1 + length fs \<le> length (cells ?s q)"
      using Cons.prems(2) by (simp only: len) simp
  qed
  then have "cells (write_frames ip (Some q) n (f # fs) s) q =
        take (n + 1) (cells ?s q) @ map snd fs @ drop (n + 1 + length fs) (cells ?s q)"
    by simp
  also have "\<dots> = take n (cells s q) @ map snd (f # fs) @ drop (n + length (f # fs)) (cells s q)"
    using Cons.prems(2) unfolding c by (simp add: take_Suc_conv_app_nth)
  finally show ?case .
qed

lemma cells_write_frames_other:
  "\<not> same_array ip q \<Longrightarrow> apart sp q \<Longrightarrow> cells (write_frames ip sp n fs s) q = cells s q"
  by (induction fs arbitrary: n s) (simp_all add: cells_store_other cells_store_sp_other)

lemma write_frames_fields [simp]:
  "jl_bt_size (write_frames ip sp n fs s) = jl_bt_size s"
  "next_obj (write_frames ip sp n fs s) = next_obj s"
  "array_ptr_void_type (write_frames ip sp n fs s) = array_ptr_void_type s"
  by (induction fs arbitrary: n s) simp_all

text \<open>What the loop leaves alone, for any backend: every array that neither output
  pointer points into, and the other fields of the runtime.\<close>

lemma stepn_loop_frame:
  "stepn_loop step c ip sp maxsize n s = (e, c', s') \<Longrightarrow>
   jl_bt_size s' = jl_bt_size s \<and> next_obj s' = next_obj s
   \<and> array_ptr_void_type s' = array_ptr_void_type s
   \<and> (\<forall>q. \<not> same_array ip q \<longrightarrow> apart sp q \<longrightarrow> cells s' q = cells s q)"
proof (induction step c ip sp maxsize n s rule: stepn_loop.induct)
  case (1 step cursor ip sp maxsize n s)
  show ?case
  proof (cases "n \<ge> maxsize")
    case True
    with "1.prems" show ?thesis by (subst (asm) stepn_loop.simps) simp
  next
    case False
    let ?r = "step cursor"
    let ?s1 = "case st_ip ?r of None \<Rightarrow> s | Some v \<Rightarrow> store (ptr_add ip n) v s"
    let ?s2 = "case st_sp ?r of None \<Rightarrow> ?s1 | Some v \<Rightarrow> store_sp sp n v ?s1"
    have f1: "jl_bt_size ?s2 = jl_bt_size s \<and> next_obj ?s2 = next_obj s
        \<and> array_ptr_void_type ?s2 = array_ptr_void_type s
        \<and> (\<forall>q. \<not> same_array ip q \<longrightarrow> apart sp q \<longrightarrow> cells ?s2 q = cells s q)"
      by (simp add: cells_store_other cells_store_sp_other split: option.splits)
    have eq: "stepn_loop step cursor ip sp maxsize n s =
        (case st_ret ?r of
           None \<Rightarrow> (Longjmp n, st_cursor ?r, ?s2)
         | Some rc \<Rightarrow>
             if rc = 0 then (Break n, st_cursor ?r, ?s2)
             else stepn_loop step (st_cursor ?r) ip sp maxsize (n + 1) ?s2)"
      using False by (subst stepn_loop.simps) (simp add: Let_def)
    show ?thesis
    proof (cases "st_ret ?r")
      case None
      with "1.prems" eq have "s' = ?s2" by simp
      with f1 show ?thesis by simp
    next
      case (Some rc)
      show ?thesis
      proof (cases "rc = 0")
        case True
        with "1.prems" eq Some have "s' = ?s2" by simp
        with f1 show ?thesis by simp
      next
        case nz: False
        have rec: "stepn_loop step (st_cursor ?r) ip sp maxsize (n + 1) ?s2 = (e, c', s')"
          using "1.prems" eq Some nz by simp
        have "jl_bt_size s' = jl_bt_size ?s2 \<and> next_obj s' = next_obj ?s2
           \<and> array_ptr_void_type s' = array_ptr_void_type ?s2
           \<and> (\<forall>q. \<not> same_array ip q \<longrightarrow> apart sp q \<longrightarrow> cells s' q = cells ?s2 q)"
          using "1.IH" [OF _ refl refl refl Some nz rec] False by simp
        with f1 show ?thesis by simp
      qed
    qed
  qed
qed


lemma write_frames_append:
  "write_frames ip sp n (xs @ ys) s =
     write_frames ip sp (n + length xs) ys (write_frames ip sp n xs s)"
  by (induction xs arbitrary: n s) simp_all

lemma walk_split:
  assumes "walk step c fs" and "m < length fs"
  shows "\<exists>c'. advance step c (take m fs) = Some c' \<and> walk step c' (drop m fs)"
proof -
  from assms(1) obtain cl where ne: "fs \<noteq> []"
    and adv: "advance step c (butlast fs) = Some cl"
    and lst: "last_step step cl (last fs)"
    by (auto simp: walk_def split: option.splits)
  have tk: "take m (butlast fs) = take m fs"
    using assms(2) by (simp add: take_butlast)
  have "butlast fs = take m fs @ drop m (butlast fs)"
    using tk append_take_drop_id [of m "butlast fs"] by simp
  with adv have "advance step c (take m fs @ drop m (butlast fs)) = Some cl" by simp
  then obtain c' where c': "advance step c (take m fs) = Some c'"
    and rest: "advance step c' (drop m (butlast fs)) = Some cl"
    by (auto simp: advance_append split: option.splits)
  have "drop m (butlast fs) = butlast (drop m fs)"
    by (simp add: drop_butlast)
  moreover have "last (drop m fs) = last fs" "drop m fs \<noteq> []"
    using assms(2) by simp_all
  ultimately have "walk step c' (drop m fs)"
    using rest lst by (simp add: walk_def)
  with c' show ?thesis by blast
qed

lemma stepn_walk_fits:
  assumes "walk step c fs" and "length fs \<le> maxsize"
  shows "\<exists>c'. jl_unw_stepn step c ip sp maxsize s = (length fs, c', write_frames ip sp 0 fs s)"
proof -
  from assms(1) obtain cl where ne: "fs \<noteq> []"
    and adv: "advance step c (butlast fs) = Some cl"
    and lst: "last_step step cl (last fs)"
    by (auto simp: walk_def split: option.splits)
  from lst have r: "st_ip (step cl) = Some (fst (last fs))"
    "st_sp (step cl) = Some (snd (last fs))" "st_ret (step cl) = Some 0"
    by (simp_all add: last_step_def Let_def)
  have len: "length (butlast fs) < maxsize" "length (butlast fs) + 1 = length fs"
    using ne assms(2) by (simp_all add: Suc_leI less_le_trans [OF _ assms(2)])
  have "write_frames ip sp 0 (butlast fs @ [last fs]) s =
        store_sp sp (length (butlast fs)) (snd (last fs))
          (store (ptr_add ip (length (butlast fs))) (fst (last fs))
            (write_frames ip sp 0 (butlast fs) s))"
    by (simp only: write_frames_append) simp
  then have w: "write_frames ip sp 0 fs s =
        store_sp sp (length (butlast fs)) (snd (last fs))
          (store (ptr_add ip (length (butlast fs))) (fst (last fs))
            (write_frames ip sp 0 (butlast fs) s))"
    using ne by simp
  show ?thesis
    using stepn_ended [OF adv len(1) r(3), of ip sp s] r(1,2) len(2) w by simp
qed

lemma stepn_walk_truncated:
  assumes "walk step c fs" and "maxsize < length fs"
  shows "\<exists>c'. jl_unw_stepn step c ip sp maxsize s =
            (maxsize + 1, c', write_frames ip sp 0 (take maxsize fs) s)
          \<and> walk step c' (drop maxsize fs)"
proof -
  from walk_split [OF assms] obtain c' where
    c': "advance step c (take maxsize fs) = Some c'" and w: "walk step c' (drop maxsize fs)"
    by blast
  have "length (take maxsize fs) = maxsize" using assms(2) by simp
  from stepn_truncated [OF c' this] w show ?thesis by blast
qed

lemma stepn_loop_bound:
  "stepn_loop step c ip sp maxsize n s = (e, c', s') \<Longrightarrow>
   (case e of Break m \<Rightarrow> m \<le> maxsize | Longjmp m \<Rightarrow> m < maxsize)"
proof (induction step c ip sp maxsize n s rule: stepn_loop.induct)
  case (1 step cursor ip sp maxsize n s)
  show ?case
  proof (cases "n \<ge> maxsize")
    case True
    with "1.prems" show ?thesis by (subst (asm) stepn_loop.simps) auto
  next
    case False
    let ?r = "step cursor"
    let ?s1 = "case st_ip ?r of None \<Rightarrow> s | Some v \<Rightarrow> store (ptr_add ip n) v s"
    let ?s2 = "case st_sp ?r of None \<Rightarrow> ?s1 | Some v \<Rightarrow> store_sp sp n v ?s1"
    have eq: "stepn_loop step cursor ip sp maxsize n s =
        (case st_ret ?r of
           None \<Rightarrow> (Longjmp n, st_cursor ?r, ?s2)
         | Some rc \<Rightarrow>
             if rc = 0 then (Break n, st_cursor ?r, ?s2)
             else stepn_loop step (st_cursor ?r) ip sp maxsize (n + 1) ?s2)"
      using False by (subst stepn_loop.simps) (simp add: Let_def)
    show ?thesis
    proof (cases "st_ret ?r")
      case None
      with "1.prems" eq False show ?thesis by auto
    next
      case (Some rc)
      show ?thesis
      proof (cases "rc = 0")
        case True
        with "1.prems" eq Some False show ?thesis by auto
      next
        case nz: False
        have rec: "stepn_loop step (st_cursor ?r) ip sp maxsize (n + 1) ?s2 = (e, c', s')"
          using "1.prems" eq Some nz by simp
        show ?thesis
          using "1.IH" [OF _ refl refl refl Some nz rec] False by simp
      qed
    qed
  qed
qed

lemma stepn_count_le: "fst (jl_unw_stepn step c ip sp maxsize s) \<le> maxsize + 1"
proof -
  obtain e c' s' where l: "stepn_loop step c ip sp maxsize 0 s = (e, c', s')"
    by (cases "stepn_loop step c ip sp maxsize 0 s") auto
  from stepn_loop_bound [OF l] show ?thesis
    by (cases e) (auto simp: jl_unw_stepn_def l)
qed

lemma stepn_frame:
  assumes "jl_unw_stepn step c ip sp maxsize s = (k, c', s')"
  shows "jl_bt_size s' = jl_bt_size s" "next_obj s' = next_obj s"
    "array_ptr_void_type s' = array_ptr_void_type s"
    "\<not> same_array ip q \<Longrightarrow> apart sp q \<Longrightarrow> cells s' q = cells s q"
proof -
  obtain e c1 s1 where l: "stepn_loop step c ip sp maxsize 0 s = (e, c1, s1)"
    by (cases "stepn_loop step c ip sp maxsize 0 s") auto
  with assms have "s' = s1" by (cases e) (simp_all add: jl_unw_stepn_def)
  with stepn_loop_frame [OF l]
  show "jl_bt_size s' = jl_bt_size s" "next_obj s' = next_obj s"
    "array_ptr_void_type s' = array_ptr_void_type s"
    "\<not> same_array ip q \<Longrightarrow> apart sp q \<Longrightarrow> cells s' q = cells s q"
    by simp_all
qed

subsection \<open>The synthetic backend, evaluated\<close>

lemma syn_step_Frame:
  "jl_unw_step_libunwind syn_lib (Frame i p # rest) =
     \<lparr>st_ip = Some i, st_sp = Some p, st_ret = Some (if rest = [] then 0 else 1),
      st_cursor = rest\<rparr>"
  by (simp add: jl_unw_step_libunwind_def syn_lib_def syn_get_reg_def syn_step_def)

lemma syn_step_Bad:
  "jl_unw_step_libunwind syn_lib (Bad # rest) =
     \<lparr>st_ip = None, st_sp = None, st_ret = None, st_cursor = Bad # rest\<rparr>"
  by (simp add: jl_unw_step_libunwind_def syn_lib_def syn_get_reg_def syn_step_def)

lemma syn_step_Nil:
  "jl_unw_step_libunwind syn_lib [] =
     \<lparr>st_ip = None, st_sp = None, st_ret = Some 0, st_cursor = []\<rparr>"
  by (simp add: jl_unw_step_libunwind_def syn_lib_def syn_get_reg_def syn_step_def)

lemma syn_init: "jl_unw_init_libunwind syn_lib ctx = (if ctx = [] then None else Some ctx)"
  by (simp add: jl_unw_init_libunwind_def syn_lib_def)

lemma syn_step_Unreadable:
  "jl_unw_step_libunwind syn_lib (Unreadable # rest) =
     \<lparr>st_ip = None, st_sp = None, st_ret = Some 0, st_cursor = Unreadable # rest\<rparr>"
  by (simp add: jl_unw_step_libunwind_def syn_lib_def syn_get_reg_def syn_step_def)

lemmas syn_simps = syn_step_Frame syn_step_Bad syn_step_Unreadable syn_step_Nil syn_init

subsection \<open>The count returned by the stepping loop\<close>

text \<open>
  The count in general. Let the first \<open>length fs\<close> steps from the cursor succeed with
  the frames \<open>fs\<close>, within the capacity, and let the next step, if the capacity leaves
  room for one, return 0. Then \<open>jl_unw_stepn\<close> returns \<open>length fs + 1\<close>: that is
  \<open>maxsize + 1\<close> when \<open>maxsize\<close> frames were collected, and otherwise the number of
  successful steps plus one for the step that ended the walk. The first \<open>length fs\<close>
  slots of the buffer hold the instruction pointers of \<open>fs\<close>; slot \<open>length fs\<close> holds
  what the last step stored, and is left as it was when that step stored nothing.
\<close>

lemma jl_unw_stepn_count:
  assumes adv: "advance step c fs = Some c'"
    and fit: "length fs \<le> maxsize"
    and ended: "length fs < maxsize \<longrightarrow> st_ret (step c') = Some 0"
    and sep: "apart sp ip"
    and room: "maxsize \<le> length (cells s ip)"
  shows "fst (jl_unw_stepn step c ip sp maxsize s) = length fs + 1
    \<and> take (length fs) (cells (snd (snd (jl_unw_stepn step c ip sp maxsize s))) ip) = map fst fs
    \<and> (length fs < maxsize \<longrightarrow>
         cells (snd (snd (jl_unw_stepn step c ip sp maxsize s))) ip ! length fs =
           (case st_ip (step c') of None \<Rightarrow> cells s ip ! length fs | Some v \<Rightarrow> v))"
proof (cases "length fs = maxsize")
  case True
  have w: "cells (write_frames ip sp 0 fs s) ip = map fst fs @ drop (length fs) (cells s ip)"
    using cells_write_frames_ip [OF sep, of 0 fs s] room fit by simp
  show ?thesis
    using stepn_truncated [OF adv True, of ip sp s] True w by simp
next
  case False
  with fit have lt: "length fs < maxsize" by simp
  with ended have ret: "st_ret (step c') = Some 0" by simp
  let ?w = "write_frames ip sp 0 fs s"
  have w: "cells ?w ip = map fst fs @ drop (length fs) (cells s ip)"
    using cells_write_frames_ip [OF sep, of 0 fs s] room fit by simp
  let ?t = "(case st_ip (step c') of None \<Rightarrow> (\<lambda>t. t) | Some v \<Rightarrow> store (ptr_add ip (length fs)) v) ?w"
  let ?u = "(case st_sp (step c') of None \<Rightarrow> (\<lambda>t. t) | Some v \<Rightarrow> store_sp sp (length fs) v) ?t"
  have t: "cells ?t ip =
      (case st_ip (step c') of None \<Rightarrow> cells ?w ip | Some v \<Rightarrow> (cells ?w ip)[length fs := v])"
    by (simp add: cells_store_same split: option.splits)
  have u: "cells ?u ip = cells ?t ip"
    using sep by (simp add: cells_store_sp_other split: option.splits)
  have r: "jl_unw_stepn step c ip sp maxsize s = (length fs + 1, st_cursor (step c'), ?u)"
    by (rule stepn_ended [OF adv lt ret])
  have len: "length fs < length (cells s ip)" using lt room by simp
  have "take (length fs) (cells ?u ip) = map fst fs"
    unfolding u t w by (simp split: option.splits)
  moreover have "cells ?u ip ! length fs =
      (case st_ip (step c') of None \<Rightarrow> cells s ip ! length fs | Some v \<Rightarrow> v)"
    unfolding u t w using len by (simp add: nth_append split: option.splits)
  ultimately show ?thesis unfolding r using lt by simp
qed

text \<open>On a walk, where the step that ends it stores its frame, the count is the number
  of frames written, and the buffer starts with their instruction pointers.\<close>

lemma jl_unw_stepn_walk_exact:
  assumes w: "walk step c fs" and fit: "length fs \<le> maxsize"
    and sep: "apart sp ip" and room: "maxsize \<le> length (cells s ip)"
  shows "fst (jl_unw_stepn step c ip sp maxsize s) = length fs
    \<and> take (length fs) (cells (snd (snd (jl_unw_stepn step c ip sp maxsize s))) ip) = map fst fs"
proof -
  from stepn_walk_fits [OF w fit, of ip sp s] obtain c' where
    r: "jl_unw_stepn step c ip sp maxsize s = (length fs, c', write_frames ip sp 0 fs s)"
    by blast
  have "cells (write_frames ip sp 0 fs s) ip = map fst fs @ drop (length fs) (cells s ip)"
    using cells_write_frames_ip [OF sep, of 0 fs s] room fit by simp
  then show ?thesis by (simp add: r)
qed

text \<open>
  C1. The stepping loop is to return \<open>maxsize + 1\<close> when it collects \<open>maxsize\<close> frames
  before the end of the walk, and otherwise the exact number of frames it wrote. It
  does not at this input: a context of one readable frame followed by a frame for
  which \<open>unw_get_reg\<close> returns an error code, and a buffer of five slots that hold 7.
  \<open>jl_unw_init\<close> succeeds, the first step stores its frame and reports more, and the
  second step returns 0 before it stores anything. The loop's final \<open>n++\<close> counts the
  slot of that step all the same: \<open>jl_unw_stepn\<close> returns 2, and so does
  \<open>rec_backtrace_ctx\<close>, though one frame was written and slot 1 still holds the 7 it
  held before.
\<close>

theorem jl_unw_stepn_counts_unwritten_slot:
  "jl_unw_init_libunwind syn_lib [Frame 1 2, Unreadable] = Some [Frame 1 2, Unreadable]
   \<and> st_ip (jl_unw_step_libunwind syn_lib [Unreadable]) = None
   \<and> st_ret (jl_unw_step_libunwind syn_lib [Unreadable]) = Some 0
   \<and> jl_unw_stepn (jl_unw_step_libunwind syn_lib) [Frame 1 2, Unreadable] (Obj 0 0) None 5
        (runtime0 [] [7, 7, 7, 7, 7]) = (2, [Unreadable], runtime0 [] [1, 7, 7, 7, 7])
   \<and> rec_backtrace_ctx (jl_unw_init_libunwind syn_lib) (jl_unw_step_libunwind syn_lib)
        (Obj 0 0) 5 [Frame 1 2, Unreadable] (runtime0 [] [7, 7, 7, 7, 7]) =
        (2, runtime0 [] [1, 7, 7, 7, 7])"
  by (simp add: rec_backtrace_ctx_def jl_unw_stepn_def stepn_loop.simps syn_simps runtime0_def)

subsection \<open>Bounded capture of a walk of known depth\<close>

lemma take_min_length: "take (min m (length xs)) xs = take m xs"
  by (simp add: min_def)

lemma rec_backtrace_ctx_le:
  "fst (rec_backtrace_ctx init step data maxsize context s) \<le> maxsize"
  by (auto simp: rec_backtrace_ctx_def split: option.splits prod.splits)

lemma rec_backtrace_ctx_walk:
  assumes i: "init context = Some c" and w: "walk step c fs"
  shows "rec_backtrace_ctx init step data maxsize context s =
     (min (length fs) maxsize, write_frames data None 0 (take maxsize fs) s)"
proof (cases "length fs \<le> maxsize")
  case True
  from stepn_walk_fits [OF w True, of data None s] obtain c' where
    "jl_unw_stepn step c data None maxsize s = (length fs, c', write_frames data None 0 fs s)"
    by blast
  with True i show ?thesis by (simp add: rec_backtrace_ctx_def min_def)
next
  case False
  then have lt: "maxsize < length fs" by simp
  from stepn_walk_truncated [OF w lt, of data None s] obtain c' where
    "jl_unw_stepn step c data None maxsize s =
       (maxsize + 1, c', write_frames data None 0 (take maxsize fs) s)"
    by blast
  with lt i show ?thesis by (simp add: rec_backtrace_ctx_def min_def)
qed

text \<open>
  C2 (as amended). Bounded capture never returns more than the capacity. From a context
  whose walk has the frames \<open>fs\<close> (depth \<open>length fs\<close>), \<open>rec_backtrace_ctx\<close> and
  \<open>rec_backtrace\<close> return \<open>min (length fs) maxsize\<close> in both cases: when the walk is
  deeper than the capacity, the sentinel \<open>maxsize + 1\<close> of the stepping loop is
  clamped to \<open>maxsize\<close>. The buffer then starts with the instruction pointers of the
  first \<open>min (length fs) maxsize\<close> frames, innermost first.
\<close>

theorem rec_backtrace_ctx_depth:
  "fst (rec_backtrace_ctx init step data maxsize context s) \<le> maxsize
   \<and> (init context = Some c \<and> walk step c fs \<and> maxsize \<le> length (cells s data) \<longrightarrow>
        fst (rec_backtrace_ctx init step data maxsize context s) = min (length fs) maxsize
      \<and> fst (rec_backtrace init step context data maxsize s) = min (length fs) maxsize
      \<and> take (min (length fs) maxsize)
           (cells (snd (rec_backtrace_ctx init step data maxsize context s)) data)
         = take maxsize (map fst fs))"
proof (intro conjI impI)
  show "fst (rec_backtrace_ctx init step data maxsize context s) \<le> maxsize"
    by (rule rec_backtrace_ctx_le)
next
  assume a: "init context = Some c \<and> walk step c fs \<and> maxsize \<le> length (cells s data)"
  then have r: "rec_backtrace_ctx init step data maxsize context s =
     (min (length fs) maxsize, write_frames data None 0 (take maxsize fs) s)"
    by (simp add: rec_backtrace_ctx_walk)
  show "fst (rec_backtrace_ctx init step data maxsize context s) = min (length fs) maxsize"
    by (simp add: r)
  show "fst (rec_backtrace init step context data maxsize s) = min (length fs) maxsize"
    by (simp add: rec_backtrace_def r)
  have "cells (write_frames data None 0 (take maxsize fs) s) data =
        take 0 (cells s data) @ map fst (take maxsize fs)
          @ drop (0 + length (take maxsize fs)) (cells s data)"
    using a by (intro cells_write_frames_ip) auto
  then show "take (min (length fs) maxsize)
           (cells (snd (rec_backtrace_ctx init step data maxsize context s)) data)
         = take maxsize (map fst fs)"
    by (simp add: r take_map min.commute take_min_length)
qed

text \<open>The theorem at a synthetic walk of depth 3 and a capacity of 2.\<close>

theorem rec_backtrace_ctx_depth_witness:
  "walk (jl_unw_step_libunwind syn_lib) [Frame 1 2, Frame 3 4, Frame 5 6] [(1, 2), (3, 4), (5, 6)]
   \<and> fst (rec_backtrace_ctx (jl_unw_init_libunwind syn_lib) (jl_unw_step_libunwind syn_lib)
        (Obj 0 0) 2 [Frame 1 2, Frame 3 4, Frame 5 6] (runtime0 [] [0, 0])) = 2
   \<and> take 2 (cells (snd (rec_backtrace_ctx (jl_unw_init_libunwind syn_lib)
        (jl_unw_step_libunwind syn_lib)
        (Obj 0 0) 2 [Frame 1 2, Frame 3 4, Frame 5 6] (runtime0 [] [0, 0]))) (Obj 0 0)) = [1, 3]"
  using rec_backtrace_ctx_depth [of "jl_unw_init_libunwind syn_lib"
      "jl_unw_step_libunwind syn_lib" "Obj 0 0" 2 "[Frame 1 2, Frame 3 4, Frame 5 6]"
      "runtime0 [] [0, 0]" "[Frame 1 2, Frame 3 4, Frame 5 6]" "[(1, 2), (3, 4), (5, 6)]"]
  by (simp add: syn_simps runtime0_def walk_def last_step_def eval_nat_numeral)

text \<open>C2 as stated fails for a walk deeper than the capacity: with depth 2 and capacity 1
  bounded capture returns 1, the capacity, and not the sentinel 2.\<close>

theorem rec_backtrace_ctx_depth_counterexample:
  "walk (jl_unw_step_libunwind syn_lib) [Frame 1 2, Frame 3 4] [(1, 2), (3, 4)]
   \<and> fst (rec_backtrace_ctx (jl_unw_init_libunwind syn_lib) (jl_unw_step_libunwind syn_lib)
        (Obj 0 0) 1 [Frame 1 2, Frame 3 4] (runtime0 [] [0])) = 1"
  by (simp add: syn_simps walk_def last_step_def rec_backtrace_ctx_def jl_unw_stepn_def
      stepn_loop.simps)

subsection \<open>A fault during the walk\<close>

text \<open>
  C3 (as amended). Let the steps for the frames \<open>fs\<close> succeed, so that
  \<open>length fs = k - 1\<close> frames are collected, and let the next step, step \<open>k\<close>, read an
  invalid address before the capacity is reached. Then the recovery path returns the
  collected count less one (and 0 when nothing was collected): \<open>jl_unw_stepn\<close> returns
  \<open>length fs - 1\<close>, that is \<open>k - 2\<close> for \<open>k \<ge> 2\<close> and 0 for \<open>k = 1\<close>, and so does bounded
  capture. Subtraction on \<open>nat\<close> stops at 0, as the guard \<open>n > 0\<close> of the source does.
\<close>

theorem jl_unw_stepn_fault:
  assumes "init context = Some c"
    and "advance step c fs = Some c'"
    and "st_ret (step c') = None"
    and "length fs < maxsize"
  shows "fst (jl_unw_stepn step c ip sp maxsize s) = length fs - 1
    \<and> fst (rec_backtrace_ctx init step data maxsize context s) = length fs - 1"
proof -
  have a: "fst (jl_unw_stepn step c ip sp maxsize s) = length fs - 1" for ip sp
    by (rule stepn_faulted [OF assms(2,4,3)])
  from a [of data None] assms(1,4)
  have "fst (rec_backtrace_ctx init step data maxsize context s) = length fs - 1"
    by (auto simp: rec_backtrace_ctx_def split: prod.splits)
  with a show ?thesis by simp
qed

text \<open>The theorem at a synthetic walk whose third step faults.\<close>

theorem jl_unw_stepn_fault_witness:
  "advance (jl_unw_step_libunwind syn_lib) [Frame 1 2, Frame 3 4, Bad] [(1, 2), (3, 4)] = Some [Bad]
   \<and> st_ret (jl_unw_step_libunwind syn_lib [Bad]) = None
   \<and> fst (rec_backtrace_ctx (jl_unw_init_libunwind syn_lib) (jl_unw_step_libunwind syn_lib)
        (Obj 0 0) 4 [Frame 1 2, Frame 3 4, Bad] (runtime0 [] [0, 0, 0, 0])) = 1"
  using jl_unw_stepn_fault [of "jl_unw_init_libunwind syn_lib" "[Frame 1 2, Frame 3 4, Bad]"
      "[Frame 1 2, Frame 3 4, Bad]" "jl_unw_step_libunwind syn_lib" "[(1, 2), (3, 4)]" "[Bad]"
      4 "Obj 0 0" None "runtime0 [] [0, 0, 0, 0]" "Obj 0 0"]
  by (simp add: syn_simps)

text \<open>C3 as stated fails at \<open>k = 3\<close>: two frames are collected, the third step faults,
  and the count returned is 1, not \<open>k - 1 = 2\<close>.\<close>

theorem jl_unw_stepn_fault_counterexample:
  "advance (jl_unw_step_libunwind syn_lib) [Frame 1 2, Frame 3 4, Bad] [(1, 2), (3, 4)] = Some [Bad]
   \<and> st_ret (jl_unw_step_libunwind syn_lib [Bad]) = None
   \<and> fst (jl_unw_stepn (jl_unw_step_libunwind syn_lib) [Frame 1 2, Frame 3 4, Bad] (Obj 0 0) None 4
        (runtime0 [] [0, 0, 0, 0])) \<noteq> 3 - 1"
  by (simp add: syn_simps jl_unw_stepn_def stepn_loop.simps)

subsection \<open>Growable capture\<close>

lemma grow_fields [simp]:
  "jl_bt_data (jl_array_grow_end a m fill s) = jl_bt_data s"
  "jl_bt_size (jl_array_grow_end a m fill s) = jl_bt_size s"
  "next_obj (jl_array_grow_end a m fill s) = next_obj s"
  "array_ptr_void_type (jl_array_grow_end a m fill s) = array_ptr_void_type s"
  by (simp_all add: jl_array_grow_end_def)

lemma del_fields [simp]:
  "jl_bt_data (jl_array_del_end a m s) = jl_bt_data s"
  "jl_bt_size (jl_array_del_end a m s) = jl_bt_size s"
  "next_obj (jl_array_del_end a m s) = next_obj s"
  "array_ptr_void_type (jl_array_del_end a m s) = array_ptr_void_type s"
  by (simp_all add: jl_array_del_end_def)

lemma alloc_fields [simp]:
  "fst (jl_alloc_array_1d m fill s) = next_obj s"
  "jl_bt_data (snd (jl_alloc_array_1d m fill s)) = jl_bt_data s"
  "jl_bt_size (snd (jl_alloc_array_1d m fill s)) = jl_bt_size s"
  "next_obj (snd (jl_alloc_array_1d m fill s)) = next_obj s + 1"
  "array_ptr_void_type (snd (jl_alloc_array_1d m fill s)) = array_ptr_void_type s"
  "heap (snd (jl_alloc_array_1d m fill s)) = (heap s)(next_obj s := Some (replicate m fill))"
  by (simp_all add: jl_alloc_array_1d_def)

lemma init_type_fields [simp]:
  "jl_bt_data (init_array_ptr_void_type s) = jl_bt_data s"
  "jl_bt_size (init_array_ptr_void_type s) = jl_bt_size s"
  "next_obj (init_array_ptr_void_type s) = next_obj s"
  "heap (init_array_ptr_void_type s) = heap s"
  by (simp_all add: init_array_ptr_void_type_def)

lemma heap_grow:
  "heap (jl_array_grow_end a m fill s) b =
     (if b = a then map_option (\<lambda>xs. xs @ replicate m fill) (heap s a) else heap s b)"
  by (simp add: jl_array_grow_end_def)

lemma heap_del:
  "heap (jl_array_del_end a m s) b =
     (if b = a then map_option (\<lambda>xs. take (length xs - m) xs) (heap s a) else heap s b)"
  by (simp add: jl_array_del_end_def)

lemma jl_bt_data_store_Obj [simp]: "jl_bt_data (store (Obj b i) v s) = jl_bt_data s"
  by simp

lemma cells_Bt_data_0: "cells s (Bt_data 0) = jl_bt_data s"
  by simp

text \<open>The growable loop leaves the snapshot as it is, whenever it returns.\<close>

lemma from_here_loop_snapshot:
  assumes "from_here_loop step maxincr fill ip sp c offset s = Some y"
  shows "jl_bt_data (snd y) = jl_bt_data s \<and> jl_bt_size (snd y) = jl_bt_size s"
proof (rule from_here_loop.raw_induct
    [where P = "\<lambda>step maxincr fill ip sp c offset s y.
       jl_bt_data (snd y) = jl_bt_data s \<and> jl_bt_size (snd y) = jl_bt_size s", OF _ assms])
  fix loop step maxincr fill ip sp cursor offset s y
  assume IH: "\<And>st mi fi i sq cu off t z. loop st mi fi i sq cu off t = Some z \<Longrightarrow>
       jl_bt_data (snd z) = jl_bt_data t \<and> jl_bt_size (snd z) = jl_bt_size t"
    and unfolded:
      "(let s1 = jl_array_grow_end ip maxincr fill s;
            s2 = (case sp of None \<Rightarrow> s1 | Some spa \<Rightarrow> jl_array_grow_end spa maxincr fill s1)
        in case jl_unw_stepn step cursor (Obj ip offset)
                  (case sp of None \<Rightarrow> None | Some spa \<Rightarrow> Some (Obj spa offset)) maxincr s2 of
             (n, cursor', s3) \<Rightarrow>
               if maxincr < n
               then loop step maxincr fill ip sp cursor' (offset + maxincr) s3
               else Some (n, s3)) = Some y"
  let ?s1 = "jl_array_grow_end ip maxincr fill s"
  let ?s2 = "case sp of None \<Rightarrow> ?s1 | Some spa \<Rightarrow> jl_array_grow_end spa maxincr fill ?s1"
  let ?spo = "case sp of None \<Rightarrow> None | Some spa \<Rightarrow> Some (Obj spa offset)"
  obtain n c' s3 where st: "jl_unw_stepn step cursor (Obj ip offset) ?spo maxincr ?s2 = (n, c', s3)"
    by (cases "jl_unw_stepn step cursor (Obj ip offset) ?spo maxincr ?s2") auto
  have s2: "jl_bt_data ?s2 = jl_bt_data s \<and> jl_bt_size ?s2 = jl_bt_size s"
    by (simp split: option.splits)
  have ap: "apart ?spo (Bt_data 0)" by (simp split: option.splits)
  have "cells s3 (Bt_data 0) = cells ?s2 (Bt_data 0)"
    by (rule stepn_frame(4) [OF st _ ap]) simp
  then have s3: "jl_bt_data s3 = jl_bt_data s \<and> jl_bt_size s3 = jl_bt_size s"
    using s2 stepn_frame(1) [OF st] by simp
  show "jl_bt_data (snd y) = jl_bt_data s \<and> jl_bt_size (snd y) = jl_bt_size s"
  proof (cases "maxincr < n")
    case True
    with unfolded st have "loop step maxincr fill ip sp c' (offset + maxincr) s3 = Some y"
      by (simp add: Let_def)
    from IH [OF this] s3 show ?thesis by simp
  next
    case False
    with unfolded st have "y = (n, s3)" by (simp add: Let_def)
    with s3 show ?thesis by simp
  qed
qed


lemma heap_store_None: "(heap (store p v s) b = None) = (heap s b = None)"
  by (cases p) auto

lemma heap_store_sp_None: "(heap (store_sp sp n v s) b = None) = (heap s b = None)"
  by (cases sp) (simp_all add: heap_store_None)

lemma heap_write_frames_None: "(heap (write_frames ip sp n fs s) b = None) = (heap s b = None)"
  by (induction fs arbitrary: n s) (simp_all add: heap_store_None heap_store_sp_None)

lemma heap_of_cells: "heap s a \<noteq> None \<Longrightarrow> heap s a = Some (cells s (Obj a 0))"
  by auto

lemma store_sp_shift:
  "store_sp (map_option (\<lambda>p. ptr_add p k) sp) n v s = store_sp sp (k + n) v s"
  by (cases sp) simp_all

lemma write_frames_shift:
  "write_frames (ptr_add ip k) (map_option (\<lambda>p. ptr_add p k) sp) n fs s =
     write_frames ip sp (k + n) fs s"
  by (induction fs arbitrary: n s) (simp_all add: store_sp_shift)

lemma map_take_drop: "map f (take n xs) @ map f (drop n xs) = map f xs"
  by (simp flip: map_append)

lemma glue_chunks:
  "(xs @ map f (take n zs)) @ map f (drop n zs) @ r = xs @ map f zs @ r"
proof -
  have "(xs @ map f (take n zs)) @ map f (drop n zs) @ r =
        xs @ (map f (take n zs) @ map f (drop n zs)) @ r"
    by simp
  also have "\<dots> = xs @ map f zs @ r"
    by (simp only: map_take_drop)
  finally show ?thesis .
qed

text \<open>One round of stores into the two grown arrays.\<close>

lemma round_heap:
  assumes hip: "heap s ip = Some (xs @ replicate m fill)"
    and hsp: "\<And>spa. sp = Some spa \<Longrightarrow>
        spa \<noteq> ip \<and> (\<exists>ys. heap s spa = Some (ys @ replicate m fill) \<and> length ys = length xs)"
    and len: "length gs \<le> m"
  shows "heap (write_frames (Obj ip (length xs))
            (case sp of None \<Rightarrow> None | Some spa \<Rightarrow> Some (Obj spa (length xs))) 0 gs s) ip
         = Some (xs @ map fst gs @ replicate (m - length gs) fill)"
    and "\<And>spa ys. sp = Some spa \<Longrightarrow> heap s spa = Some (ys @ replicate m fill) \<Longrightarrow>
         heap (write_frames (Obj ip (length xs))
            (case sp of None \<Rightarrow> None | Some spa \<Rightarrow> Some (Obj spa (length xs))) 0 gs s) spa
         = Some (ys @ map snd gs @ replicate (m - length gs) fill)"
proof -
  let ?spo = "case sp of None \<Rightarrow> None | Some spa \<Rightarrow> Some (Obj spa (length xs))"
  let ?sp0 = "case sp of None \<Rightarrow> None | Some spa \<Rightarrow> Some (Obj spa 0)"
  let ?s' = "write_frames (Obj ip (length xs)) ?spo 0 gs s"
  have spo: "?spo = map_option (\<lambda>p. ptr_add p (length xs)) ?sp0"
    by (simp split: option.splits)
  have sh: "?s' = write_frames (Obj ip 0) ?sp0 (length xs) gs s"
    using write_frames_shift [of "Obj ip 0" "length xs" ?sp0 0 gs s] spo by simp
  have ap: "apart ?sp0 (Obj ip 0)"
    using hsp by (auto split: option.splits)
  have c0: "cells s (Obj ip 0) = xs @ replicate m fill" using hip by simp
  have "cells ?s' (Obj ip 0) =
        take (length xs) (cells s (Obj ip 0)) @ map fst gs
          @ drop (length xs + length gs) (cells s (Obj ip 0))"
  proof -
    have b: "length xs + length gs \<le> length (cells s (Obj ip 0))"
      unfolding c0 using len by simp
    show ?thesis unfolding sh by (rule cells_write_frames_ip [OF ap b])
  qed
  then have "cells ?s' (Obj ip 0) = xs @ map fst gs @ replicate (m - length gs) fill"
    unfolding c0 using len by (simp del: cells.simps)
  moreover have "heap ?s' ip \<noteq> None"
    using hip by (simp add: heap_write_frames_None)
  ultimately show "heap ?s' ip = Some (xs @ map fst gs @ replicate (m - length gs) fill)"
    using heap_of_cells [of ?s' ip] by (simp del: cells.simps)
next
  fix spa ys
  assume sp: "sp = Some spa" and hy: "heap s spa = Some (ys @ replicate m fill)"
  from hsp [OF sp] hy have ne: "spa \<noteq> ip" and ly: "length ys = length xs" by auto
  let ?s' = "write_frames (Obj ip (length xs)) (Some (Obj spa (length xs))) 0 gs s"
  have sh: "?s' = write_frames (Obj ip 0) (Some (Obj spa 0)) (length xs) gs s"
    using write_frames_shift [of "Obj ip 0" "length xs" "Some (Obj spa 0)" 0 gs s] by simp
  have c0: "cells s (Obj spa 0) = ys @ replicate m fill" using hy by simp
  have "cells ?s' (Obj spa 0) =
        take (length xs) (cells s (Obj spa 0)) @ map snd gs
          @ drop (length xs + length gs) (cells s (Obj spa 0))"
  proof -
    have b: "length xs + length gs \<le> length (cells s (Obj spa 0))"
      unfolding c0 using len ly by simp
    have a: "\<not> same_array (Obj ip 0) (Obj spa 0)" using ne by simp
    show ?thesis unfolding sh by (rule cells_write_frames_sp [OF a b])
  qed
  then have "cells ?s' (Obj spa 0) = ys @ map snd gs @ replicate (m - length gs) fill"
    unfolding c0 using ly len by (simp del: cells.simps)
  moreover have "heap ?s' spa \<noteq> None"
    using hy by (simp add: heap_write_frames_None)
  ultimately have "heap ?s' spa = Some (ys @ map snd gs @ replicate (m - length gs) fill)"
    using heap_of_cells [of ?s' spa] by (simp del: cells.simps)
  then show "heap (write_frames (Obj ip (length xs))
            (case sp of None \<Rightarrow> None | Some spa \<Rightarrow> Some (Obj spa (length xs))) 0 gs s) spa
         = Some (ys @ map snd gs @ replicate (m - length gs) fill)"
    using sp by simp
qed


text \<open>On a walk of known depth the growable loop returns, with the frames appended to
  both arrays and \<open>maxincr - n\<close> unused elements left at their ends.\<close>

lemma from_here_loop_walk:
  assumes pos: "0 < maxincr"
  shows "walk step c fs \<Longrightarrow> heap s ip = Some xs \<Longrightarrow>
    (\<And>spa. sp = Some spa \<Longrightarrow> spa \<noteq> ip \<and> (\<exists>ys. heap s spa = Some ys \<and> length ys = length xs)) \<Longrightarrow>
    \<exists>n s'. from_here_loop step maxincr fill ip sp c (length xs) s = Some (n, s')
      \<and> n \<le> maxincr
      \<and> heap s' ip = Some (xs @ map fst fs @ replicate (maxincr - n) fill)
      \<and> (\<forall>spa ys. sp = Some spa \<longrightarrow> heap s spa = Some ys \<longrightarrow>
            heap s' spa = Some (ys @ map snd fs @ replicate (maxincr - n) fill))"
proof (induction "length fs" arbitrary: fs c s xs rule: less_induct)
  case less
  note w = less.prems(1) and hip = less.prems(2) and hsp = less.prems(3)
  let ?s1 = "jl_array_grow_end ip maxincr fill s"
  let ?s2 = "case sp of None \<Rightarrow> ?s1 | Some spa \<Rightarrow> jl_array_grow_end spa maxincr fill ?s1"
  let ?spo = "case sp of None \<Rightarrow> None | Some spa \<Rightarrow> Some (Obj spa (length xs))"
  have eq: "from_here_loop step maxincr fill ip sp c (length xs) s =
      (case jl_unw_stepn step c (Obj ip (length xs)) ?spo maxincr ?s2 of
         (n, c', s3) \<Rightarrow>
           if maxincr < n
           then from_here_loop step maxincr fill ip sp c' (length xs + maxincr) s3
           else Some (n, s3))"
    by (subst from_here_loop.simps) (simp add: Let_def)
  have hip2: "heap ?s2 ip = Some (xs @ replicate maxincr fill)"
    using hip hsp by (auto simp: heap_grow split: option.splits)
  have hsp2: "heap ?s2 spa = Some (ys @ replicate maxincr fill)"
    if "sp = Some spa" "heap s spa = Some ys" for spa ys
    using that hsp [OF that(1)] by (simp add: heap_grow)
  have hsp2': "spa \<noteq> ip \<and> (\<exists>ys. heap ?s2 spa = Some (ys @ replicate maxincr fill)
      \<and> length ys = length xs)" if "sp = Some spa" for spa
    using hsp [OF that] hsp2 [OF that] by auto
  show ?case
  proof (cases "length fs \<le> maxincr")
    case True
    let ?s3 = "write_frames (Obj ip (length xs)) ?spo 0 fs ?s2"
    from stepn_walk_fits [OF w True, of "Obj ip (length xs)" ?spo ?s2] obtain c' where
      st: "jl_unw_stepn step c (Obj ip (length xs)) ?spo maxincr ?s2 = (length fs, c', ?s3)"
      by blast
    have r: "from_here_loop step maxincr fill ip sp c (length xs) s = Some (length fs, ?s3)"
      using True by (simp add: eq st)
    have a: "heap ?s3 ip = Some (xs @ map fst fs @ replicate (maxincr - length fs) fill)"
      by (rule round_heap(1) [OF hip2 hsp2' True])
    have b: "heap ?s3 spa = Some (ys @ map snd fs @ replicate (maxincr - length fs) fill)"
      if "sp = Some spa" "heap s spa = Some ys" for spa ys
      by (rule round_heap(2) [OF hip2 hsp2' True that(1) hsp2 [OF that]])
    show ?thesis
      using r True a b by blast
  next
    case False
    then have lt: "maxincr < length fs" by simp
    let ?gs = "take maxincr fs"
    let ?s3 = "write_frames (Obj ip (length xs)) ?spo 0 ?gs ?s2"
    from stepn_walk_truncated [OF w lt, of "Obj ip (length xs)" ?spo ?s2] obtain c' where
      st: "jl_unw_stepn step c (Obj ip (length xs)) ?spo maxincr ?s2 = (maxincr + 1, c', ?s3)"
      and w': "walk step c' (drop maxincr fs)"
      by blast
    have lg: "length ?gs = maxincr" "length ?gs \<le> maxincr" using lt by simp_all
    have r: "from_here_loop step maxincr fill ip sp c (length xs) s =
        from_here_loop step maxincr fill ip sp c' (length xs + maxincr) ?s3"
      by (simp add: eq st)
    have a: "heap ?s3 ip = Some (xs @ map fst ?gs)"
      using round_heap(1) [OF hip2 hsp2' lg(2)] lg(1) by simp
    have b: "heap ?s3 spa = Some (ys @ map snd ?gs)"
      if "sp = Some spa" "heap s spa = Some ys" for spa ys
      using round_heap(2) [OF hip2 hsp2' lg(2) that(1) hsp2 [OF that]] lg(1) by simp
    have b': "spa \<noteq> ip \<and> (\<exists>ys. heap ?s3 spa = Some ys \<and> length ys = length (xs @ map fst ?gs))"
      if "sp = Some spa" for spa
    proof -
      from hsp [OF that] obtain ys where ne: "spa \<noteq> ip" and y: "heap s spa = Some ys"
        and ly: "length ys = length xs" by blast
      from b [OF that y] ne ly lg(1) show ?thesis by simp
    qed
    have shorter: "length (drop maxincr fs) < length fs" using pos lt by simp
    from less.hyps [OF shorter w' a b'] obtain n s' where
      res: "from_here_loop step maxincr fill ip sp c' (length (xs @ map fst ?gs)) ?s3 = Some (n, s')"
      and n: "n \<le> maxincr"
      and ha: "heap s' ip =
         Some ((xs @ map fst ?gs) @ map fst (drop maxincr fs) @ replicate (maxincr - n) fill)"
      and hb: "\<forall>spa ys. sp = Some spa \<longrightarrow> heap ?s3 spa = Some ys \<longrightarrow>
         heap s' spa = Some (ys @ map snd (drop maxincr fs) @ replicate (maxincr - n) fill)"
      by blast
    have r': "from_here_loop step maxincr fill ip sp c (length xs) s = Some (n, s')"
      using r res lg(1) by simp
    have ha': "heap s' ip = Some (xs @ map fst fs @ replicate (maxincr - n) fill)"
      using ha by (simp only: glue_chunks)
    have hb': "heap s' spa = Some (ys @ map snd fs @ replicate (maxincr - n) fill)"
      if "sp = Some spa" "heap s spa = Some ys" for spa ys
    proof -
      from hb that(1) b [OF that]
      have "heap s' spa =
          Some ((ys @ map snd ?gs) @ map snd (drop maxincr fs) @ replicate (maxincr - n) fill)"
        by blast
      then show ?thesis
        by (simp only: glue_chunks)
    qed
    show ?thesis using r' n ha' hb' by blast
  qed
qed


lemma backtrace_from_here_incr_walk:
  assumes i: "(init :: 'ctx \<Rightarrow> 'c option) here = Some c"
    and w: "walk step c (fs :: ('a \<times> 'a) list)" and pos: "0 < maxincr"
  shows "\<exists>s'. backtrace_from_here_incr maxincr init step here fill returnsp s =
            Some (bt_result (next_obj s) (if returnsp \<noteq> 0 then Some (next_obj s + 1) else None), s')
          \<and> heap s' (next_obj s) = Some (map fst fs)
          \<and> (returnsp \<noteq> 0 \<longrightarrow> heap s' (next_obj s + 1) = Some (map snd fs))"
proof -
  let ?ip = "next_obj s"
  let ?s0 = "init_array_ptr_void_type s"
  let ?s1 = "snd (jl_alloc_array_1d 0 fill ?s0)"
  let ?sp = "if returnsp \<noteq> 0 then Some (next_obj s + 1) else None"
  let ?s2 = "if returnsp \<noteq> 0 then snd (jl_alloc_array_1d 0 fill ?s1) else ?s1"
  have hip: "heap ?s2 ?ip = Some []" by simp
  have "\<exists>n s'. from_here_loop step maxincr fill ?ip ?sp c (length ([] :: 'a list)) ?s2 = Some (n, s')
      \<and> n \<le> maxincr
      \<and> heap s' ?ip = Some ([] @ map fst fs @ replicate (maxincr - n) fill)
      \<and> (\<forall>spa ys. ?sp = Some spa \<longrightarrow> heap ?s2 spa = Some ys \<longrightarrow>
            heap s' spa = Some (ys @ map snd fs @ replicate (maxincr - n) fill))"
  proof (rule from_here_loop_walk [OF pos w hip])
    fix spa
    assume "?sp = Some spa"
    then show "spa \<noteq> ?ip \<and> (\<exists>ys. heap ?s2 spa = Some ys \<and> length ys = length ([] :: 'a list))"
      by (auto split: if_splits)
  qed
  then obtain n s3 where
    l: "from_here_loop step maxincr fill ?ip ?sp c 0 ?s2 = Some (n, s3)"
    and n: "n \<le> maxincr"
    and a: "heap s3 ?ip = Some (map fst fs @ replicate (maxincr - n) fill)"
    and b: "\<forall>spa ys. ?sp = Some spa \<longrightarrow> heap ?s2 spa = Some ys \<longrightarrow>
            heap s3 spa = Some (ys @ map snd fs @ replicate (maxincr - n) fill)"
    by auto
  let ?s4 = "jl_array_del_end ?ip (maxincr - n) s3"
  let ?s5 = "case ?sp of None \<Rightarrow> ?s4 | Some spa \<Rightarrow> jl_array_del_end spa (maxincr - n) ?s4"
  have r: "backtrace_from_here_incr maxincr init step here fill returnsp s =
      Some (bt_result ?ip ?sp, ?s5)"
    using i l by (cases "returnsp = 0")
      (simp_all add: backtrace_from_here_incr_def Let_def case_prod_beta)
  have a4: "heap ?s4 ?ip = Some (map fst fs)"
    using a by (simp add: heap_del)
  have a5: "heap ?s5 ?ip = Some (map fst fs)"
    using a4 by (simp add: heap_del)
  have b5: "heap ?s5 (next_obj s + 1) = Some (map snd fs)" if "returnsp \<noteq> 0"
  proof -
    from b that have "heap s3 (next_obj s + 1) = Some (map snd fs @ replicate (maxincr - n) fill)"
      by simp
    with that show ?thesis by (simp add: heap_del)
  qed
  show ?thesis using r a5 b5 by blast
qed

text \<open>One round of the growable loop: both arrays are extended, the stepping loop is
  called at the current offset, and its return value decides whether another round
  follows.\<close>

lemma from_here_loop_round:
  "from_here_loop step maxincr fill ip sp c offset s =
      (case jl_unw_stepn step c (Obj ip offset)
              (case sp of None \<Rightarrow> None | Some spa \<Rightarrow> Some (Obj spa offset)) maxincr
              (case sp of None \<Rightarrow> jl_array_grow_end ip maxincr fill s
               | Some spa \<Rightarrow> jl_array_grow_end spa maxincr fill (jl_array_grow_end ip maxincr fill s)) of
         (n, c', s3) \<Rightarrow>
           if maxincr < n
           then from_here_loop step maxincr fill ip sp c' (offset + maxincr) s3
           else Some (n, s3))"
  by (subst from_here_loop.simps) (simp add: Let_def)

text \<open>On a walk of depth \<open>d\<close> the value that the growable loop ends with, which is the
  last return value of the stepping loop, is \<open>(d - 1) mod maxincr + 1\<close>.\<close>

lemma from_here_loop_count:
  assumes pos: "0 < maxincr"
  shows "walk step c fs \<Longrightarrow>
    \<exists>s'. from_here_loop step maxincr fill ip sp c offset s =
            Some ((length fs - 1) mod maxincr + 1, s')"
proof (induction "length fs" arbitrary: fs c s offset rule: less_induct)
  case less
  note w = less.prems(1)
  let ?s2 = "case sp of None \<Rightarrow> jl_array_grow_end ip maxincr fill s
             | Some spa \<Rightarrow> jl_array_grow_end spa maxincr fill (jl_array_grow_end ip maxincr fill s)"
  let ?spo = "case sp of None \<Rightarrow> None | Some spa \<Rightarrow> Some (Obj spa offset)"
  from w have ne: "fs \<noteq> []" by (simp add: walk_def)
  show ?case
  proof (cases "length fs \<le> maxincr")
    case True
    from stepn_walk_fits [OF w True, of "Obj ip offset" ?spo ?s2] obtain c' where
      st: "jl_unw_stepn step c (Obj ip offset) ?spo maxincr ?s2 =
             (length fs, c', write_frames (Obj ip offset) ?spo 0 fs ?s2)"
      by blast
    have "(length fs - 1) mod maxincr + 1 = length fs"
      using True ne by (cases fs) simp_all
    then show ?thesis
      using True by (subst from_here_loop_round) (simp add: st)
  next
    case False
    then have lt: "maxincr < length fs" by simp
    from stepn_walk_truncated [OF w lt, of "Obj ip offset" ?spo ?s2] obtain c' where
      st: "jl_unw_stepn step c (Obj ip offset) ?spo maxincr ?s2 =
             (maxincr + 1, c', write_frames (Obj ip offset) ?spo 0 (take maxincr fs) ?s2)"
      and w': "walk step c' (drop maxincr fs)"
      by blast
    have shorter: "length (drop maxincr fs) < length fs" using pos lt by simp
    have m: "(length (drop maxincr fs) - 1) mod maxincr = (length fs - 1) mod maxincr"
    proof -
      have "maxincr \<le> length fs - 1" using lt by simp
      then have "(length fs - 1) mod maxincr = (length fs - 1 - maxincr) mod maxincr"
        by (rule le_mod_geq)
      then show ?thesis by (simp add: diff_commute)
    qed
    from less.hyps [OF shorter w', of "offset + maxincr"
        "write_frames (Obj ip offset) ?spo 0 (take maxincr fs) ?s2"]
    show ?thesis
      unfolding m by (subst from_here_loop_round) (simp add: st)
  qed
qed

lemma rounds_arith:
  fixes d m :: nat
  assumes "0 < d" "0 < m"
  shows "d + (m - ((d - 1) mod m + 1)) = ((d - 1) div m + 1) * m"
proof -
  define k where "k = d - 1"
  define q where "q = k div m"
  define r where "r = k mod m"
  have d: "d = k + 1" using assms(1) by (simp add: k_def)
  have r: "r < m" using assms(2) by (simp add: r_def)
  have k: "k = q * m + r" by (simp add: q_def r_def)
  have "k + 1 + (m - (r + 1)) = (q + 1) * m"
    using r unfolding k by simp
  then show ?thesis
    unfolding d by (simp add: q_def r_def)
qed

text \<open>The synthetic context of the frames \<open>fs\<close> has the walk \<open>fs\<close>.\<close>

lemma syn_advance:
  "rest \<noteq> [] \<Longrightarrow>
   advance (jl_unw_step_libunwind syn_lib) (syn_frames fs @ rest) fs = Some rest"
  by (induction fs) (simp_all add: syn_frames_def syn_step_Frame)

lemma syn_walk:
  "fs \<noteq> [] \<Longrightarrow> walk (jl_unw_step_libunwind syn_lib) (syn_frames fs) fs"
proof -
  assume ne: "fs \<noteq> []"
  then have s: "syn_frames fs = syn_frames (butlast fs) @ [Frame (fst (last fs)) (snd (last fs))]"
    by (induction fs) (simp_all add: syn_frames_def)
  show ?thesis
    using ne unfolding walk_def s
    by (simp add: syn_advance last_step_def syn_step_Frame)
qed

text \<open>
  C4 (as amended). From a context whose walk has the frames \<open>fs\<close>, of depth
  \<open>d = length fs\<close>, at least 1, growable capture returns, and after the trim the array
  of instruction pointers is exactly the instruction pointers of \<open>fs\<close>, so its length is
  \<open>d\<close>; when stack pointers are requested the second array is exactly the stack pointers
  of \<open>fs\<close> and has the same length. The two arrays are the two objects allocated by the
  call. The same holds for every positive increment in place of the 1000 of
  \<open>jl_backtrace_from_here\<close>.

  The loop extends both arrays by the increment before each call of the stepping loop,
  and goes on exactly while that call returns more than the increment, which is its
  truncation value; it stops at the first call that returns at most the increment, also
  when the call returns the increment itself. So the loop makes
  \<open>(d - 1) div maxincr + 1\<close> rounds, the arrays have that many increments before the
  trim, and the last call of the stepping loop returns \<open>(d - 1) mod maxincr + 1\<close>, a
  number from 1 to the increment, which is the increment when it divides \<open>d\<close>.

  When the cursor cannot be initialised on the context, both arrays are returned empty,
  whatever the increment.
\<close>

theorem jl_backtrace_from_here_exact:
  assumes "init here = Some c" and "walk step c (fs :: ('a \<times> 'a) list)"
  shows "(\<exists>s'. jl_backtrace_from_here init step here fill returnsp s =
            Some (bt_result (next_obj s) (if returnsp \<noteq> 0 then Some (next_obj s + 1) else None), s')
          \<and> heap s' (next_obj s) = Some (map fst fs)
          \<and> (returnsp \<noteq> 0 \<longrightarrow> heap s' (next_obj s + 1) = Some (map snd fs)))
    \<and> (\<forall>maxincr > 0. \<exists>s'. backtrace_from_here_incr maxincr init step here fill returnsp s =
            Some (bt_result (next_obj s) (if returnsp \<noteq> 0 then Some (next_obj s + 1) else None), s')
          \<and> length (the (heap s' (next_obj s))) = length fs
          \<and> heap s' (next_obj s) = Some (map fst fs)
          \<and> (returnsp \<noteq> 0 \<longrightarrow> heap s' (next_obj s + 1) = Some (map snd fs)))
    \<and> (\<forall>maxincr > 0. \<exists>s3.
          from_here_loop step maxincr fill (next_obj s)
              (if returnsp \<noteq> 0 then Some (next_obj s + 1) else None) c 0
              (if returnsp \<noteq> 0
               then snd (jl_alloc_array_1d 0 fill
                      (snd (jl_alloc_array_1d 0 fill (init_array_ptr_void_type s))))
               else snd (jl_alloc_array_1d 0 fill (init_array_ptr_void_type s)))
            = Some ((length fs - 1) mod maxincr + 1, s3)
          \<and> length (the (heap s3 (next_obj s))) = ((length fs - 1) div maxincr + 1) * maxincr
          \<and> (returnsp \<noteq> 0 \<longrightarrow>
               length (the (heap s3 (next_obj s + 1))) = ((length fs - 1) div maxincr + 1) * maxincr))
    \<and> (\<forall>maxincr ip sp cursor offset t n cursor' t'.
          jl_unw_stepn step cursor (Obj ip offset)
              (case sp of None \<Rightarrow> None | Some spa \<Rightarrow> Some (Obj spa offset)) maxincr
              (case sp of None \<Rightarrow> jl_array_grow_end ip maxincr fill t
               | Some spa \<Rightarrow>
                   jl_array_grow_end spa maxincr fill (jl_array_grow_end ip maxincr fill t))
            = (n, cursor', t') \<longrightarrow>
          from_here_loop step maxincr fill ip sp cursor offset t =
            (if maxincr < n
             then from_here_loop step maxincr fill ip sp cursor' (offset + maxincr) t'
             else Some (n, t')))
    \<and> (\<forall>maxincr ctx. init ctx = None \<longrightarrow>
          (\<exists>s'. backtrace_from_here_incr maxincr init step ctx fill returnsp s =
            Some (bt_result (next_obj s) (if returnsp \<noteq> 0 then Some (next_obj s + 1) else None), s')
          \<and> heap s' (next_obj s) = Some []
          \<and> (returnsp \<noteq> 0 \<longrightarrow> heap s' (next_obj s + 1) = Some [])))"
proof (intro conjI allI impI)
  show "\<exists>s'. jl_backtrace_from_here init step here fill returnsp s =
            Some (bt_result (next_obj s) (if returnsp \<noteq> 0 then Some (next_obj s + 1) else None), s')
          \<and> heap s' (next_obj s) = Some (map fst fs)
          \<and> (returnsp \<noteq> 0 \<longrightarrow> heap s' (next_obj s + 1) = Some (map snd fs))"
    unfolding jl_backtrace_from_here_def
    by (rule backtrace_from_here_incr_walk [where init = init and here = here,
          OF assms(1) assms(2)]) simp
next
  fix maxincr :: nat
  assume "0 < maxincr"
  from backtrace_from_here_incr_walk [where init = init and here = here
      and fill = fill and returnsp = returnsp and s = s, OF assms(1) assms(2) this]
  show "\<exists>s'. backtrace_from_here_incr maxincr init step here fill returnsp s =
            Some (bt_result (next_obj s) (if returnsp \<noteq> 0 then Some (next_obj s + 1) else None), s')
          \<and> length (the (heap s' (next_obj s))) = length fs
          \<and> heap s' (next_obj s) = Some (map fst fs)
          \<and> (returnsp \<noteq> 0 \<longrightarrow> heap s' (next_obj s + 1) = Some (map snd fs))"
    by auto
next
  fix maxincr :: nat
  assume pos: "0 < maxincr"
  let ?ip = "next_obj s"
  let ?sp = "if returnsp \<noteq> 0 then Some (next_obj s + 1) else None"
  let ?s1 = "snd (jl_alloc_array_1d 0 fill (init_array_ptr_void_type s))"
  let ?s2 = "if returnsp \<noteq> 0 then snd (jl_alloc_array_1d 0 fill ?s1) else ?s1"
  let ?n = "(length fs - 1) mod maxincr + 1"
  from assms(2) have d: "0 < length fs" by (simp add: walk_def)
  have hip: "heap ?s2 ?ip = Some []" by simp
  have "\<exists>n s'. from_here_loop step maxincr fill ?ip ?sp c (length ([] :: 'a list)) ?s2 = Some (n, s')
      \<and> n \<le> maxincr
      \<and> heap s' ?ip = Some ([] @ map fst fs @ replicate (maxincr - n) fill)
      \<and> (\<forall>spa ys. ?sp = Some spa \<longrightarrow> heap ?s2 spa = Some ys \<longrightarrow>
            heap s' spa = Some (ys @ map snd fs @ replicate (maxincr - n) fill))"
  proof (rule from_here_loop_walk [OF pos assms(2) hip])
    fix spa
    assume "?sp = Some spa"
    then show "spa \<noteq> ?ip \<and> (\<exists>ys. heap ?s2 spa = Some ys \<and> length ys = length ([] :: 'a list))"
      by (auto split: if_splits)
  qed
  then obtain n s3 where
    l: "from_here_loop step maxincr fill ?ip ?sp c 0 ?s2 = Some (n, s3)"
    and a: "heap s3 ?ip = Some (map fst fs @ replicate (maxincr - n) fill)"
    and b: "\<forall>spa ys. ?sp = Some spa \<longrightarrow> heap ?s2 spa = Some ys \<longrightarrow>
            heap s3 spa = Some (ys @ map snd fs @ replicate (maxincr - n) fill)"
    by auto
  from from_here_loop_count [OF pos assms(2), of fill ?ip ?sp 0 ?s2] l
  have n: "n = ?n" by auto
  have la: "length (the (heap s3 ?ip)) = ((length fs - 1) div maxincr + 1) * maxincr"
    using a rounds_arith [OF d pos] by (simp add: n)
  have lb: "length (the (heap s3 (next_obj s + 1))) = ((length fs - 1) div maxincr + 1) * maxincr"
    if "returnsp \<noteq> 0"
  proof -
    from b that have "heap s3 (next_obj s + 1) = Some (map snd fs @ replicate (maxincr - n) fill)"
      by simp
    then show ?thesis using rounds_arith [OF d pos] by (simp add: n)
  qed
  show "\<exists>s3. from_here_loop step maxincr fill ?ip ?sp c 0 ?s2 = Some (?n, s3)
          \<and> length (the (heap s3 (next_obj s))) = ((length fs - 1) div maxincr + 1) * maxincr
          \<and> (returnsp \<noteq> 0 \<longrightarrow>
               length (the (heap s3 (next_obj s + 1))) = ((length fs - 1) div maxincr + 1) * maxincr)"
    using l la lb unfolding n by blast
next
  fix maxincr ip sp cursor offset t n cursor' t'
  assume "jl_unw_stepn step cursor (Obj ip offset)
              (case sp of None \<Rightarrow> None | Some spa \<Rightarrow> Some (Obj spa offset)) maxincr
              (case sp of None \<Rightarrow> jl_array_grow_end ip maxincr fill t
               | Some spa \<Rightarrow>
                   jl_array_grow_end spa maxincr fill (jl_array_grow_end ip maxincr fill t))
            = (n, cursor', t')"
  then show "from_here_loop step maxincr fill ip sp cursor offset t =
            (if maxincr < n
             then from_here_loop step maxincr fill ip sp cursor' (offset + maxincr) t'
             else Some (n, t'))"
    by (subst from_here_loop_round) simp
next
  fix maxincr :: nat and ctx
  assume "init ctx = None"
  then show "\<exists>s'. backtrace_from_here_incr maxincr init step ctx fill returnsp s =
            Some (bt_result (next_obj s) (if returnsp \<noteq> 0 then Some (next_obj s + 1) else None), s')
          \<and> heap s' (next_obj s) = Some []
          \<and> (returnsp \<noteq> 0 \<longrightarrow> heap s' (next_obj s + 1) = Some [])"
    by (cases "returnsp = 0")
      (simp_all add: backtrace_from_here_incr_def Let_def case_prod_beta)
qed

text \<open>The theorem at a synthetic walk of depth 3, with stack pointers requested: with
  the increment 1000 and with the increment 2 the two arrays hold the three frames; with
  the increment 2 the loop ends with the value 1 after two rounds, both arrays having
  four elements before the trim. On the empty synthetic context the cursor cannot be
  initialised and both arrays are empty.\<close>

theorem jl_backtrace_from_here_exact_witness:
  "walk (jl_unw_step_libunwind syn_lib) [Frame 1 2, Frame 3 4, Frame 5 6] [(1, 2), (3, 4), (5, 6)]
   \<and> (\<exists>s'. jl_backtrace_from_here (jl_unw_init_libunwind syn_lib) (jl_unw_step_libunwind syn_lib)
          [Frame 1 2, Frame 3 4, Frame 5 6] 0 1 (runtime0 [] []) = Some (Ips_Sps 1 2, s')
        \<and> heap s' 1 = Some [1, 3, 5] \<and> heap s' 2 = Some [2, 4, 6])
   \<and> (\<exists>s'. backtrace_from_here_incr 2 (jl_unw_init_libunwind syn_lib)
          (jl_unw_step_libunwind syn_lib)
          [Frame 1 2, Frame 3 4, Frame 5 6] 0 1 (runtime0 [] []) = Some (Ips_Sps 1 2, s')
        \<and> heap s' 1 = Some [1, 3, 5] \<and> heap s' 2 = Some [2, 4, 6])
   \<and> (\<exists>s3. from_here_loop (jl_unw_step_libunwind syn_lib) 2 0 1 (Some 2)
          [Frame 1 2, Frame 3 4, Frame 5 6] 0
          (snd (jl_alloc_array_1d 0 0
             (snd (jl_alloc_array_1d 0 0 (init_array_ptr_void_type (runtime0 [] []))))))
          = Some (1, s3)
        \<and> length (the (heap s3 1)) = 4 \<and> length (the (heap s3 2)) = 4)
   \<and> jl_unw_init_libunwind syn_lib [] = None
   \<and> (\<exists>s'. backtrace_from_here_incr 2 (jl_unw_init_libunwind syn_lib)
          (jl_unw_step_libunwind syn_lib) [] 0 1 (runtime0 [] []) = Some (Ips_Sps 1 2, s')
        \<and> heap s' 1 = Some [] \<and> heap s' 2 = Some [])"
proof -
  let ?ctx = "[Frame 1 2, Frame 3 4, Frame 5 6]"
  have i: "jl_unw_init_libunwind syn_lib ?ctx = Some ?ctx"
    by (simp add: syn_simps)
  have w: "walk (jl_unw_step_libunwind syn_lib) ?ctx [(1, 2), (3, 4), (5, 6)]"
    by (simp add: walk_def last_step_def syn_simps)
  note t = jl_backtrace_from_here_exact [where init = "jl_unw_init_libunwind syn_lib"
      and here = ?ctx and fill = 0 and returnsp = 1 and s = "runtime0 [] []", OF i w]
  from t have a: "\<exists>s'. jl_backtrace_from_here (jl_unw_init_libunwind syn_lib)
          (jl_unw_step_libunwind syn_lib) ?ctx 0 1 (runtime0 [] []) = Some (Ips_Sps 1 2, s')
        \<and> heap s' 1 = Some [1, 3, 5] \<and> heap s' 2 = Some [2, 4, 6]"
    by (simp add: runtime0_def numeral_2_eq_2)
  from t [THEN conjunct2, THEN conjunct1, THEN spec, where x = 2]
  have b: "\<exists>s'. backtrace_from_here_incr 2 (jl_unw_init_libunwind syn_lib)
          (jl_unw_step_libunwind syn_lib) ?ctx 0 1 (runtime0 [] []) = Some (Ips_Sps 1 2, s')
        \<and> heap s' 1 = Some [1, 3, 5] \<and> heap s' 2 = Some [2, 4, 6]"
    by (auto simp: runtime0_def numeral_2_eq_2)
  have n: "next_obj (runtime0 [] [] :: 64 word runtime) = 1" by (simp add: runtime0_def)
  from t [THEN conjunct2, THEN conjunct2, THEN conjunct1, THEN spec, where x = 2]
  have c: "\<exists>s3. from_here_loop (jl_unw_step_libunwind syn_lib) 2 0 1 (Some 2) ?ctx 0
          (snd (jl_alloc_array_1d 0 0
             (snd (jl_alloc_array_1d 0 0 (init_array_ptr_void_type (runtime0 [] []))))))
          = Some (1, s3)
        \<and> length (the (heap s3 1)) = 4 \<and> length (the (heap s3 2)) = 4"
    unfolding n by (simp add: eval_nat_numeral)
  have j: "jl_unw_init_libunwind syn_lib [] = None"
    by (simp add: syn_simps)
  from t [THEN conjunct2, THEN conjunct2, THEN conjunct2, THEN conjunct2, THEN spec, THEN spec,
      where x1 = 2 and x = "[]"] j
  have e: "\<exists>s'. backtrace_from_here_incr 2 (jl_unw_init_libunwind syn_lib)
          (jl_unw_step_libunwind syn_lib) [] 0 1 (runtime0 [] []) = Some (Ips_Sps 1 2, s')
        \<and> heap s' 1 = Some [] \<and> heap s' 2 = Some []"
    by (auto simp: runtime0_def numeral_2_eq_2)
  from w a b c j e show ?thesis by blast
qed

text \<open>
  The claim as first stated has the loop go on until the stepping loop returns fewer
  frames than the increment. On the synthetic walk of depth 2 with the increment 2 the
  first call of the stepping loop returns 2, which is not fewer than the increment, and
  the loop ends there, with the value 2 and the array extended once. The same with the
  increment 1000 of \<open>jl_backtrace_from_here\<close> on a walk of depth 1000.
\<close>

theorem jl_backtrace_from_here_exact_counterexample:
  "walk (jl_unw_step_libunwind syn_lib) [Frame 1 2, Frame 3 4] [(1, 2), (3, 4)]
   \<and> fst (jl_unw_stepn (jl_unw_step_libunwind syn_lib) [Frame 1 2, Frame 3 4] (Obj 0 0) None 2
            (jl_array_grow_end 0 2 0 (runtime0 [] []))) = 2
   \<and> (\<exists>s3. from_here_loop (jl_unw_step_libunwind syn_lib) 2 0 0 None [Frame 1 2, Frame 3 4] 0
            (runtime0 [] []) = Some (2, s3)
          \<and> heap s3 0 = Some [1, 3])
   \<and> walk (jl_unw_step_libunwind syn_lib) (syn_frames (replicate 1000 (1, 2)))
        (replicate 1000 (1, 2))
   \<and> fst (jl_unw_stepn (jl_unw_step_libunwind syn_lib) (syn_frames (replicate 1000 (1, 2)))
            (Obj 0 0) None 1000 (jl_array_grow_end 0 1000 0 (runtime0 [] []))) = 1000
   \<and> (\<exists>s3. from_here_loop (jl_unw_step_libunwind syn_lib) 1000 0 0 None
            (syn_frames (replicate 1000 (1, 2))) 0 (runtime0 [] []) = Some (1000, s3)
          \<and> heap s3 0 = Some (replicate 1000 1))"
proof -
  let ?step = "jl_unw_step_libunwind syn_lib"
  have w2: "walk ?step [Frame 1 2, Frame 3 4] [(1, 2), (3, 4)]"
    by (simp add: walk_def last_step_def syn_simps)
  have s2: "fst (jl_unw_stepn ?step [Frame 1 2, Frame 3 4] (Obj 0 0) None 2
            (jl_array_grow_end 0 2 0 (runtime0 [] []))) = 2"
    by (simp add: jl_unw_stepn_def stepn_loop.simps syn_simps)
  have l2: "\<exists>s3. from_here_loop ?step 2 0 0 None [Frame 1 2, Frame 3 4] 0
            (runtime0 [] []) = Some (2, s3) \<and> heap s3 0 = Some [1, 3]"
    by (subst from_here_loop_round)
      (simp add: jl_unw_stepn_def stepn_loop.simps syn_simps runtime0_def jl_array_grow_end_def
        numeral_2_eq_2)
  let ?fs = "replicate 1000 (1 :: 64 word, 2 :: 64 word)"
  have w: "walk ?step (syn_frames ?fs) ?fs"
    by (rule syn_walk) simp
  have s: "fst (jl_unw_stepn ?step (syn_frames ?fs) (Obj 0 0) None 1000
            (jl_array_grow_end 0 1000 0 (runtime0 [] []))) = 1000"
    using stepn_walk_fits [OF w, of 1000 "Obj 0 0" None "jl_array_grow_end 0 1000 0 (runtime0 [] [])"]
    by auto
  have h: "heap (runtime0 [] [] :: 64 word runtime) 0 = Some []" by (simp add: runtime0_def)
  from from_here_loop_walk [where maxincr = 1000 and fill = 0 and sp = None, OF _ w h]
  obtain n s3 where l: "from_here_loop ?step 1000 0 0 None (syn_frames ?fs) 0 (runtime0 [] [])
       = Some (n, s3)"
    and a: "heap s3 0 = Some ([] @ map fst ?fs @ replicate (1000 - n) 0)"
    by auto
  from from_here_loop_count [where maxincr = 1000, OF _ w, of 0 0 None 0 "runtime0 [] []"] l
  have n: "n = 1000" by auto
  have "\<exists>s3. from_here_loop ?step 1000 0 0 None (syn_frames ?fs) 0 (runtime0 [] [])
       = Some (1000, s3) \<and> heap s3 0 = Some (replicate 1000 1)"
    using l a unfolding n by auto
  with w2 s2 l2 w s show ?thesis by blast
qed

subsection \<open>Capture and the snapshot\<close>

lemma rec_backtrace_ctx_snapshot:
  "jl_bt_size (snd (rec_backtrace_ctx init step data maxsize ctx s)) = jl_bt_size s"
  "data = Obj b i \<Longrightarrow>
   jl_bt_data (snd (rec_backtrace_ctx init step data maxsize ctx s)) = jl_bt_data s"
proof -
  show "jl_bt_size (snd (rec_backtrace_ctx init step data maxsize ctx s)) = jl_bt_size s"
    by (auto simp: rec_backtrace_ctx_def split: option.splits prod.splits dest: stepn_frame(1))
next
  assume d: "data = Obj b i"
  show "jl_bt_data (snd (rec_backtrace_ctx init step data maxsize ctx s)) = jl_bt_data s"
  proof (cases "init ctx")
    case None
    then show ?thesis by (simp add: rec_backtrace_ctx_def)
  next
    case (Some c)
    obtain n c' s' where st: "jl_unw_stepn step c data None maxsize s = (n, c', s')"
      by (cases "jl_unw_stepn step c data None maxsize s") auto
    have "cells s' (Bt_data 0) = cells s (Bt_data 0)"
      by (rule stepn_frame(4) [OF st]) (simp_all add: d)
    then show ?thesis using Some st by (simp add: rec_backtrace_ctx_def)
  qed
qed

lemma backtrace_from_here_incr_snapshot:
  assumes "backtrace_from_here_incr maxincr init step here fill returnsp s = Some (bt, s')"
  shows "jl_bt_data s' = jl_bt_data s \<and> jl_bt_size s' = jl_bt_size s"
proof (cases "init here")
  case None
  with assms show ?thesis
    by (auto simp: backtrace_from_here_incr_def Let_def case_prod_beta split: if_splits)
next
  case (Some c)
  let ?s0 = "init_array_ptr_void_type s"
  let ?a1 = "jl_alloc_array_1d 0 fill ?s0"
  let ?p2 = "if returnsp \<noteq> 0
             then (case jl_alloc_array_1d 0 fill (snd ?a1) of (a, t) \<Rightarrow> (Some a, t))
             else (None, snd ?a1)"
  from assms Some obtain n s3 where
    l: "from_here_loop step maxincr fill (fst ?a1) (fst ?p2) c 0 (snd ?p2) = Some (n, s3)"
    and s': "s' = (case fst ?p2 of None \<Rightarrow> jl_array_del_end (fst ?a1) (maxincr - n) s3
                   | Some spa \<Rightarrow> jl_array_del_end spa (maxincr - n)
                       (jl_array_del_end (fst ?a1) (maxincr - n) s3))"
    by (auto simp: backtrace_from_here_incr_def Let_def case_prod_beta split: option.splits)
  have "jl_bt_data (snd ?p2) = jl_bt_data s \<and> jl_bt_size (snd ?p2) = jl_bt_size s"
    by (simp add: case_prod_beta)
  with from_here_loop_snapshot [OF l]
  have "jl_bt_data s3 = jl_bt_data s \<and> jl_bt_size s3 = jl_bt_size s" by simp
  then show ?thesis by (simp add: s' split: option.splits)
qed

text \<open>
  C7 (as amended). Bounded capture stores only through the caller's pointer. It never
  changes \<open>jl_bt_size\<close>, and when the caller's buffer is a heap array, that is any
  buffer other than the snapshot array, it leaves \<open>jl_bt_data\<close> as it is. Growable
  capture, whenever it returns, leaves \<open>jl_bt_data\<close> and \<open>jl_bt_size\<close> as they are:
  it stores only into the arrays it allocates.
\<close>

theorem capture_leaves_snapshot:
  "jl_bt_size (snd (rec_backtrace_ctx init step data maxsize ctx s)) = jl_bt_size s
   \<and> jl_bt_size (snd (rec_backtrace init step ctx data maxsize s)) = jl_bt_size s
   \<and> (data = Obj b i \<longrightarrow>
        jl_bt_data (snd (rec_backtrace_ctx init step data maxsize ctx s)) = jl_bt_data s
      \<and> jl_bt_data (snd (rec_backtrace init step ctx data maxsize s)) = jl_bt_data s)
   \<and> (jl_backtrace_from_here init step ctx fill returnsp s = Some (bt, s') \<longrightarrow>
        jl_bt_data s' = jl_bt_data s \<and> jl_bt_size s' = jl_bt_size s)"
  using rec_backtrace_ctx_snapshot(1) [where init = init and step = step and data = data
      and maxsize = maxsize and s = s]
    rec_backtrace_ctx_snapshot(2) [where init = init and step = step and data = data
      and maxsize = maxsize and s = s and b = b and i = i]
    backtrace_from_here_incr_snapshot [where maxincr = 1000 and init = init and step = step
      and fill = fill and returnsp = returnsp and s = s and bt = bt and s' = s']
  by (simp add: rec_backtrace_def jl_backtrace_from_here_def)

text \<open>The theorem at a synthetic walk of depth 1 and a snapshot of two addresses.\<close>

theorem capture_leaves_snapshot_witness:
  "jl_backtrace_from_here (jl_unw_init_libunwind syn_lib) (jl_unw_step_libunwind syn_lib)
       [Frame 1 2] 0 0 (runtime0 [8, 9] []) \<noteq> None
   \<and> jl_bt_data (snd (the (jl_backtrace_from_here (jl_unw_init_libunwind syn_lib)
       (jl_unw_step_libunwind syn_lib) [Frame 1 2] 0 0 (runtime0 [8, 9] [])))) = [8, 9]
   \<and> jl_bt_data (snd (rec_backtrace_ctx (jl_unw_init_libunwind syn_lib)
       (jl_unw_step_libunwind syn_lib) (Obj 0 0) 1 [Frame 1 2] (runtime0 [8, 9] [0]))) = [8, 9]"
proof -
  let ?ctx = "[Frame 1 2]"
  have i: "jl_unw_init_libunwind syn_lib ?ctx = Some ?ctx"
    by (simp add: syn_simps)
  have w: "walk (jl_unw_step_libunwind syn_lib) ?ctx [(1, 2)]"
    by (simp add: walk_def last_step_def syn_simps)
  from backtrace_from_here_incr_walk [where init = "jl_unw_init_libunwind syn_lib"
      and here = ?ctx and fill = 0 and returnsp = 0 and s = "runtime0 [8, 9] []"
      and maxincr = 1000, OF i w]
  obtain s' where r: "jl_backtrace_from_here (jl_unw_init_libunwind syn_lib)
       (jl_unw_step_libunwind syn_lib) ?ctx 0 0 (runtime0 [8, 9] []) = Some (Ips 1, s')"
    by (auto simp: runtime0_def jl_backtrace_from_here_def)
  from capture_leaves_snapshot [where init = "jl_unw_init_libunwind syn_lib"
      and step = "jl_unw_step_libunwind syn_lib" and data = "Obj 0 0" and maxsize = 1
      and ctx = ?ctx and s = "runtime0 [8, 9] [0]" and b = 0 and i = 0]
  have a: "jl_bt_data (snd (rec_backtrace_ctx (jl_unw_init_libunwind syn_lib)
       (jl_unw_step_libunwind syn_lib) (Obj 0 0) 1 [Frame 1 2] (runtime0 [8, 9] [0]))) = [8, 9]"
    by (simp add: runtime0_def)
  from capture_leaves_snapshot [where init = "jl_unw_init_libunwind syn_lib"
      and step = "jl_unw_step_libunwind syn_lib" and ctx = ?ctx
      and s = "runtime0 [8, 9] []" and fill = 0 and returnsp = 0 and bt = "Ips 1" and s' = s'] r
  have b: "jl_bt_data s' = [8, 9]"
    by (simp add: runtime0_def)
  from r a b show ?thesis by simp
qed

text \<open>C7 as stated fails when the caller's buffer is the snapshot array itself: bounded
  capture into \<open>jl_bt_data\<close> replaces the snapshot's first address.\<close>

theorem capture_leaves_snapshot_counterexample:
  "jl_bt_data (runtime0 [9] []) = [9 :: 64 word]
   \<and> jl_bt_data (snd (rec_backtrace_ctx (jl_unw_init_libunwind syn_lib)
        (jl_unw_step_libunwind syn_lib) (Bt_data 0) 1 [Frame 1 2] (runtime0 [9] []))) = [1]"
  by (simp add: syn_simps rec_backtrace_ctx_def jl_unw_stepn_def stepn_loop.simps runtime0_def)

subsection \<open>Capture without a backend\<close>

text \<open>
  C8. On the ARM stub \<open>jl_unw_init\<close> returns 0 for every context and \<open>jl_unw_step\<close>
  returns 0 for every cursor. For any backend, when \<open>jl_unw_init\<close> returns 0 on the
  context, \<open>rec_backtrace_ctx\<close> and \<open>rec_backtrace\<close> return 0 and leave memory as it
  is, and \<open>jl_backtrace_from_here\<close> returns the arrays it has allocated, empty: the
  array of instruction pointers, and with it the array of stack pointers when they
  were requested. Each function returns a value; none has an error result.
\<close>

theorem capture_without_backend:
  "(jl_unw_init_arm any_ctx :: 'c option) = None
   \<and> st_ret (jl_unw_step_arm any_cursor :: ('a, 'c) stepped) = Some 0
   \<and> (init ctx = None \<longrightarrow>
        rec_backtrace_ctx init step data maxsize ctx s = (0, s)
      \<and> rec_backtrace init step ctx data maxsize s = (0, s)
      \<and> (\<exists>s'. jl_backtrace_from_here init step ctx fill returnsp s =
              Some (bt_result (next_obj s) (if returnsp \<noteq> 0 then Some (next_obj s + 1) else None), s')
            \<and> heap s' (next_obj s) = Some []
            \<and> (returnsp \<noteq> 0 \<longrightarrow> heap s' (next_obj s + 1) = Some [])))"
  by (cases "returnsp = 0")
    (simp_all add: jl_unw_init_arm_def jl_unw_step_arm_def rec_backtrace_ctx_def rec_backtrace_def
      jl_backtrace_from_here_def backtrace_from_here_incr_def Let_def case_prod_beta)

text \<open>The theorem at the ARM stub.\<close>

theorem capture_without_backend_witness:
  "(jl_unw_init_arm () :: unit option) = None
   \<and> rec_backtrace_ctx (jl_unw_init_arm :: unit \<Rightarrow> unit option) jl_unw_step_arm (Obj 0 0) 3 ()
        (runtime0 [] [7, 7, 7 :: 64 word]) = (0, runtime0 [] [7, 7, 7])
   \<and> (\<exists>s'. jl_backtrace_from_here (jl_unw_init_arm :: unit \<Rightarrow> unit option) jl_unw_step_arm ()
          (0 :: 64 word) 1 (runtime0 [] []) = Some (Ips_Sps 1 2, s')
        \<and> heap s' 1 = Some [] \<and> heap s' 2 = Some [])"
proof -
  have i: "(jl_unw_init_arm () :: unit option) = None"
    by (simp add: jl_unw_init_arm_def)
  from capture_without_backend [where init = "jl_unw_init_arm :: unit \<Rightarrow> unit option"
      and ctx = "()" and step = jl_unw_step_arm and data = "Obj 0 0" and maxsize = 3
      and s = "runtime0 [] [7, 7, 7 :: 64 word]" and any_ctx = "()" and any_cursor = "()"
      and fill = 0 and returnsp = 0] i
  have a: "rec_backtrace_ctx (jl_unw_init_arm :: unit \<Rightarrow> unit option) jl_unw_step_arm (Obj 0 0) 3 ()
        (runtime0 [] [7, 7, 7 :: 64 word]) = (0, runtime0 [] [7, 7, 7])"
    by blast
  from capture_without_backend [where init = "jl_unw_init_arm :: unit \<Rightarrow> unit option"
      and ctx = "()" and step = jl_unw_step_arm
      and s = "runtime0 [] ([] :: 64 word list)" and fill = 0 and returnsp = 1
      and any_ctx = "()" and any_cursor = "()" and data = "Obj 0 0" and maxsize = 0] i
  have b: "\<exists>s'. jl_backtrace_from_here (jl_unw_init_arm :: unit \<Rightarrow> unit option) jl_unw_step_arm ()
          (0 :: 64 word) 1 (runtime0 [] []) = Some (Ips_Sps 1 2, s')
        \<and> heap s' 1 = Some [] \<and> heap s' 2 = Some []"
    by (auto simp: runtime0_def numeral_2_eq_2)
  from i a b show ?thesis by blast
qed

subsection \<open>Reading the snapshot\<close>

lemma store_list_fields [simp]:
  "jl_bt_size (store_list p vs s) = jl_bt_size s"
  "next_obj (store_list p vs s) = next_obj s"
  by (induction vs arbitrary: p s) simp_all

lemma store_list_Obj_bt_data [simp]:
  "jl_bt_data (store_list (Obj b i) vs s) = jl_bt_data s"
  by (induction vs arbitrary: i s) simp_all

lemma store_list_Obj_other:
  "b' \<noteq> b \<Longrightarrow> heap (store_list (Obj b i) vs s) b' = heap s b'"
  by (induction vs arbitrary: i s) simp_all

lemma store_list_Obj_same:
  "heap s b = Some xs \<Longrightarrow> i + length vs \<le> length xs \<Longrightarrow>
   heap (store_list (Obj b i) vs s) b = Some (take i xs @ vs @ drop (i + length vs) xs)"
proof (induction vs arbitrary: i s xs)
  case Nil
  then show ?case by simp
next
  case (Cons v vs)
  let ?s = "store (Obj b i) v s"
  have h: "heap ?s b = Some (xs[i := v])" using Cons.prems(1) by simp
  have "heap (store_list (Obj b (i + 1)) vs ?s) b =
        Some (take (i + 1) (xs[i := v]) @ vs @ drop (i + 1 + length vs) (xs[i := v]))"
    using Cons.prems(2) by (intro Cons.IH [OF h]) simp
  then show ?case
    using Cons.prems(2) by (simp add: take_Suc_conv_app_nth)
qed

text \<open>
  C10. Let the snapshot's length be within its array, and let the allocator's next
  object be unused. Then \<open>jl_get_backtrace\<close> returns that object, which did not exist
  before the call; afterwards it holds exactly the first \<open>jl_bt_size\<close> entries of
  \<open>jl_bt_data\<close>, so its length is \<open>jl_bt_size\<close>; and \<open>jl_bt_data\<close> and \<open>jl_bt_size\<close>
  are as they were.
\<close>

theorem jl_get_backtrace_copy:
  assumes "jl_bt_size s \<le> length (jl_bt_data s)" and "heap s (next_obj s) = None"
  shows "fst (jl_get_backtrace fill s) = next_obj s
    \<and> heap s (fst (jl_get_backtrace fill s)) = None
    \<and> heap (snd (jl_get_backtrace fill s)) (fst (jl_get_backtrace fill s)) =
         Some (take (jl_bt_size s) (jl_bt_data s))
    \<and> length (take (jl_bt_size s) (jl_bt_data s)) = jl_bt_size s
    \<and> jl_bt_data (snd (jl_get_backtrace fill s)) = jl_bt_data s
    \<and> jl_bt_size (snd (jl_get_backtrace fill s)) = jl_bt_size s"
proof -
  let ?n = "jl_bt_size s"
  let ?s1 = "snd (jl_alloc_array_1d ?n fill (init_array_ptr_void_type s))"
  let ?vs = "take ?n (jl_bt_data s)"
  have r: "jl_get_backtrace fill s = (next_obj s, store_list (Obj (next_obj s) 0) ?vs ?s1)"
    by (simp add: jl_get_backtrace_def Let_def case_prod_beta memcpy_def)
  have len: "length ?vs = ?n" using assms(1) by simp
  have h1: "heap ?s1 (next_obj s) = Some (replicate ?n fill)" by simp
  have "heap (store_list (Obj (next_obj s) 0) ?vs ?s1) (next_obj s) =
        Some (take 0 (replicate ?n fill) @ ?vs @ drop (0 + length ?vs) (replicate ?n fill))"
    by (rule store_list_Obj_same [OF h1]) (simp add: len)
  then have c: "heap (store_list (Obj (next_obj s) 0) ?vs ?s1) (next_obj s) = Some ?vs"
    using assms(1) by simp
  show ?thesis using assms c len by (simp add: r)
qed

text \<open>The theorem at a snapshot of three addresses.\<close>

theorem jl_get_backtrace_copy_witness:
  "jl_bt_size (runtime0 [5, 6, 7 :: 64 word] []) \<le> length (jl_bt_data (runtime0 [5, 6, 7 :: 64 word] []))
   \<and> heap (runtime0 [5, 6, 7 :: 64 word] []) 1 = None
   \<and> fst (jl_get_backtrace 0 (runtime0 [5, 6, 7 :: 64 word] [])) = 1
   \<and> heap (snd (jl_get_backtrace 0 (runtime0 [5, 6, 7 :: 64 word] []))) 1 = Some [5, 6, 7]
   \<and> jl_bt_data (snd (jl_get_backtrace 0 (runtime0 [5, 6, 7 :: 64 word] []))) = [5, 6, 7]"
  using jl_get_backtrace_copy [of "runtime0 [5, 6, 7 :: 64 word] []" 0]
  by (auto simp: runtime0_def)

subsection \<open>Symbolication\<close>

lemma lookup_row_slots:
  "lookup_row ip frame =
     JL_svec [case func_name frame of Some f \<Rightarrow> JL_symbol f | None \<Rightarrow> JL_symbol [],
              case file_name frame of Some f \<Rightarrow> JL_symbol f | None \<Rightarrow> JL_symbol [],
              JL_long (line frame),
              case linfo frame of Some l \<Rightarrow> JL_linfo l | None \<Rightarrow> JL_nothing,
              JL_bool (fromC frame \<noteq> 0),
              JL_bool (inlined frame \<noteq> 0),
              JL_long (sint ip)]"
  by (simp add: lookup_row_def jl_alloc_svec_def jl_svecset_def empty_sym_def Let_def
      eval_nat_numeral split: option.splits)

text \<open>
  C5 (as amended). \<open>jl_lookup_code_address\<close> returns one descriptor for each frame the
  code-info service returns for the address with inlined frames expanded
  (\<open>noInline = 0\<close>), in the same order. Each descriptor is a vector of 7 fields whose
  function name and file name are symbols, never \<open>NULL\<close>: the frame's text, or the
  empty symbol \<open>empty_sym\<close> when the service left the text out. The line is the line the
  service reports, and the raw address is the last field.
\<close>

theorem jl_lookup_code_address_rows:
  "\<exists>rows. jl_lookup_code_address svc ip skipC = JL_svec rows
     \<and> length rows = length (svc ip skipC 0)
     \<and> (\<forall>i < length rows. \<exists>r. rows ! i = JL_svec r \<and> length r = 7
           \<and> r ! 0 = JL_symbol (case func_name (svc ip skipC 0 ! i) of None \<Rightarrow> [] | Some f \<Rightarrow> f)
           \<and> r ! 1 = JL_symbol (case file_name (svc ip skipC 0 ! i) of None \<Rightarrow> [] | Some f \<Rightarrow> f)
           \<and> r ! 2 = JL_long (line (svc ip skipC 0 ! i))
           \<and> r ! 6 = JL_long (sint ip))"
  by (auto simp: jl_lookup_code_address_def lookup_row_slots split: option.splits)

text \<open>The theorem at a service that returns an inlined frame and its caller.\<close>

theorem jl_lookup_code_address_rows_witness:
  "jl_lookup_code_address svc_inline 4096 0 =
     JL_svec [JL_svec [JL_symbol ''inner'', JL_symbol ''g.jl'', JL_long 7, JL_nothing,
                JL_bool False, JL_bool True, JL_long 4096],
              JL_svec [JL_symbol ''outer'', JL_symbol ''f.jl'', JL_long 3, JL_nothing,
                JL_bool False, JL_bool False, JL_long 4096]]"
  using jl_lookup_code_address_rows [of svc_inline 4096 0]
  by (simp add: jl_lookup_code_address_def lookup_row_slots svc_inline_def)

text \<open>
  C5 as stated fails on both counts. When the service returns one frame without
  names and with the line -1 for the address 4096, the descriptor's line is -1 and not
  the address; the address is the last field. When the service returns no frame, the
  result has no descriptor.
\<close>

theorem jl_lookup_code_address_rows_counterexample:
  "jl_lookup_code_address svc_unknown 4096 0 =
     JL_svec [JL_svec [JL_symbol [], JL_symbol [], JL_long (- 1), JL_nothing,
                JL_bool True, JL_bool False, JL_long 4096]]
   \<and> jl_lookup_code_address svc_none 4096 0 = JL_svec []"
  by (simp add: jl_lookup_code_address_def lookup_row_slots svc_unknown_def svc_none_def)

subsection \<open>The diagnostic printer\<close>

lemma gdblookup_loop_eq: "gdblookup_loop ip frames out = out @ map (gdb_line ip) frames"
  by (induction frames arbitrary: out) simp_all

lemma jlbacktrace_loop_eq:
  "n \<le> length (jl_bt_data s) \<Longrightarrow> i \<le> n \<Longrightarrow>
   jlbacktrace_loop svc s n i out =
     out @ concat (map (\<lambda>a. map (gdb_line (a - 1)) (svc (a - 1) 0 1))
                     (drop i (take n (jl_bt_data s))))"
proof (induction svc s n i out rule: jlbacktrace_loop.induct)
  case (1 svc s n i out)
  show ?case
  proof (cases "i < n")
    case True
    then have "i < length (take n (jl_bt_data s))"
      using "1.prems" by simp
    from Cons_nth_drop_Suc [OF this]
    have "take n (jl_bt_data s) ! i # drop (Suc i) (take n (jl_bt_data s)) =
        drop i (take n (jl_bt_data s))" .
    moreover have "take n (jl_bt_data s) ! i = jl_bt_data s ! i"
      using True by simp
    ultimately have d: "drop i (take n (jl_bt_data s)) =
        jl_bt_data s ! i # drop (i + 1) (take n (jl_bt_data s))"
      by simp
    have "jlbacktrace_loop svc s n i out =
          jlbacktrace_loop svc s n (i + 1) (jl_gdblookup svc (jl_bt_data s ! i - 1) out)"
      using True by simp
    also have "\<dots> = jl_gdblookup svc (jl_bt_data s ! i - 1) out
          @ concat (map (\<lambda>a. map (gdb_line (a - 1)) (svc (a - 1) 0 1))
                     (drop (i + 1) (take n (jl_bt_data s))))"
      using "1.IH" [OF True] "1.prems" True by simp
    finally show ?thesis
      by (simp add: d jl_gdblookup_def gdblookup_loop_eq)
  next
    case False
    with "1.prems" show ?thesis by simp
  qed
qed

text \<open>
  C6 (as amended). With the snapshot's length within its array, \<open>jlbacktrace\<close> appends
  to the output, for each of the first \<open>jl_bt_size\<close> addresses of \<open>jl_bt_data\<close> in
  order, the lines of that address less one: one line for each frame that the service
  returns for it with \<open>skipC = 0\<close> and \<open>noInline = 1\<close>, that is without expanding
  inlined frames. The line of a frame is \<open>unknown function (ip: address)\<close> when the
  frame has no function name, \<open>function at file (unknown line)\<close> when its line is -1,
  and \<open>function at file:line\<close> otherwise. The lines of one address do not depend on any
  other address, so an address for which the lookup yields nothing or a frame without a
  name does not keep the later ones from being printed.
\<close>

theorem jlbacktrace_lines:
  assumes "jl_bt_size s \<le> length (jl_bt_data s)"
  shows "jlbacktrace (svc :: ('w::len, 'l) code_info) s out =
      out @ concat (map (\<lambda>a. map (gdb_line (a - 1)) (svc (a - 1) 0 1))
                      (take (jl_bt_size s) (jl_bt_data s)))
    \<and> (\<forall>(ip :: 'w word) (frame :: 'l jl_frame_t). gdb_line ip frame =
          (case func_name frame of
             None \<Rightarrow> ''unknown function (ip: '' @ fmt_p ip @ '')'' @ [CHR 0x0A]
           | Some f \<Rightarrow>
               if line frame = - 1
               then f @ '' at '' @ fmt_s (file_name frame) @ '' (unknown line)'' @ [CHR 0x0A]
               else f @ '' at '' @ fmt_s (file_name frame) @ '':''
                      @ fmt_uptr (word_of_int (line frame) :: 'w word) @ [CHR 0x0A]))"
  using jlbacktrace_loop_eq [of "jl_bt_size s" s 0 svc out] assms
  by (simp add: jlbacktrace_def gdb_line_def split: option.splits)


text \<open>The theorem at a snapshot of two addresses, for a service that knows the function
  and for one that returns a frame without names.\<close>

theorem jlbacktrace_lines_witness:
  "jl_bt_size (runtime0 [4097 :: 64 word, 8193] []) \<le> length (jl_bt_data (runtime0 [4097 :: 64 word, 8193] []))
   \<and> jlbacktrace svc_inline (runtime0 [4097, 8193] []) [] =
       [''outer at f.jl:3'' @ [CHR 0x0A], ''outer at f.jl:3'' @ [CHR 0x0A]]
   \<and> jlbacktrace svc_unknown (runtime0 [4097, 8193] []) [] =
       [''unknown function (ip: 0x1000)'' @ [CHR 0x0A],
        ''unknown function (ip: 0x2000)'' @ [CHR 0x0A]]"
  using jlbacktrace_lines [of "runtime0 [4097 :: 64 word, 8193] []" svc_inline "[]"]
    jlbacktrace_lines [of "runtime0 [4097 :: 64 word, 8193] []" svc_unknown "[]"]
  by (simp add: runtime0_def svc_inline_def svc_unknown_def fmt_s_def fmt_uptr_def fmt_p_def
      digit_char_def)

text \<open>
  C6 as stated fails. For a service that returns two frames for the address 4096 when
  inlined frames are expanded (\<open>noInline = 0\<close>) and one when they are not, the printer
  prints the one line of the lookup with \<open>noInline = 1\<close>, not the two of the expanded
  lookup. For a service that returns no frame, it prints no line for the address and
  not the line \<open>unknown function\<close>.
\<close>

theorem jlbacktrace_lines_counterexample:
  "jlbacktrace svc_inline (runtime0 [4097] []) [] = map (gdb_line (4096 :: 64 word)) (svc_inline 4096 0 1)
   \<and> jlbacktrace svc_inline (runtime0 [4097] []) [] \<noteq> map (gdb_line (4096 :: 64 word)) (svc_inline 4096 0 0)
   \<and> jlbacktrace svc_none (runtime0 [4097] []) [] = []"
  by (simp add: jlbacktrace_def jl_gdblookup_def runtime0_def svc_inline_def svc_none_def)

subsection \<open>The re-entrancy guard of the resolution callbacks\<close>

text \<open>
  C9 (as amended). In the 64-bit build both callbacks first ask
  \<open>RtlLookupFunctionEntry\<close>. If it finds an entry they return it (the entry, or its
  image base) whatever the flag, without a debug-help call. If it finds none and
  \<open>jl_in_stackwalk\<close> is set, they return 0 without a debug-help call. If it finds
  none and the flag is clear, the debug-help service is called in a state where the
  flag is 1, the callback returns what the service returns, and the flag is 0
  afterwards. In the 32-bit build neither callback reads the flag: the function-table
  callback is the debug-help call itself, and the module-base callback answers from
  its one-entry cache when the address is the cached one, else from
  \<open>jl_getUnwindInfo\<close> when that returns a base, which it then caches, and else is the
  debug-help call, whatever the flag.
\<close>

theorem resolution_callbacks_guard:
  assumes "RtlLookupFunctionEntry api addr (HistoryTable w) = ((fn, base), h)"
  shows "(fn \<noteq> 0 \<longrightarrow>
            JuliaFunctionTableAccess64 True api hProcess addr w = (fn, w\<lparr>HistoryTable := h\<rparr>)
          \<and> JuliaGetModuleBase64 True api hProcess addr w = (base, w\<lparr>HistoryTable := h\<rparr>))
    \<and> (fn = 0 \<and> jl_in_stackwalk w \<noteq> 0 \<longrightarrow>
            JuliaFunctionTableAccess64 True api hProcess addr w = (0, w\<lparr>HistoryTable := h\<rparr>)
          \<and> JuliaGetModuleBase64 True api hProcess addr w = (0, w\<lparr>HistoryTable := h\<rparr>))
    \<and> (fn = 0 \<and> jl_in_stackwalk w = 0 \<longrightarrow>
            JuliaFunctionTableAccess64 True api hProcess addr w =
              (fst (SymFunctionTableAccess64 api hProcess addr
                      (w\<lparr>HistoryTable := h, jl_in_stackwalk := 1\<rparr>)),
               (snd (SymFunctionTableAccess64 api hProcess addr
                      (w\<lparr>HistoryTable := h, jl_in_stackwalk := 1\<rparr>)))\<lparr>jl_in_stackwalk := 0\<rparr>)
          \<and> JuliaGetModuleBase64 True api hProcess addr w =
              (fst (SymGetModuleBase64 api hProcess addr
                      (w\<lparr>HistoryTable := h, jl_in_stackwalk := 1\<rparr>)),
               (snd (SymGetModuleBase64 api hProcess addr
                      (w\<lparr>HistoryTable := h, jl_in_stackwalk := 1\<rparr>)))\<lparr>jl_in_stackwalk := 0\<rparr>))
    \<and> JuliaFunctionTableAccess64 False api hProcess addr w =
          SymFunctionTableAccess64 api hProcess addr w
    \<and> (addr = HistoryTable_dwAddr w \<longrightarrow>
            JuliaGetModuleBase64 False api hProcess addr w = (HistoryTable_ImageBase w, w))
    \<and> (addr \<noteq> HistoryTable_dwAddr w \<and> jl_getUnwindInfo api addr \<noteq> 0 \<longrightarrow>
            JuliaGetModuleBase64 False api hProcess addr w =
              (jl_getUnwindInfo api addr,
               w\<lparr>HistoryTable_dwAddr := addr, HistoryTable_ImageBase := jl_getUnwindInfo api addr\<rparr>))
    \<and> (addr \<noteq> HistoryTable_dwAddr w \<and> jl_getUnwindInfo api addr = 0 \<longrightarrow>
            JuliaGetModuleBase64 False api hProcess addr w =
              SymGetModuleBase64 api hProcess addr w)"
  using assms
  by (simp add: JuliaFunctionTableAccess64_def JuliaGetModuleBase64_def Let_def case_prod_beta)

text \<open>The theorem at a service table whose \<open>RtlLookupFunctionEntry\<close> finds nothing and
  whose debug-help calls record the flag they see: with the flag set neither callback
  calls them; with the flag clear each calls its service once, which sees the flag set,
  and the flag is clear afterwards. In the 32-bit build, with the flag set, each callback
  calls its service, which sees the flag set.\<close>

theorem resolution_callbacks_guard_witness:
  "JuliaGetModuleBase64 True api_missing () 4096 (win0 1 []) = (0, win0 1 [])
   \<and> JuliaFunctionTableAccess64 True api_missing () 4096 (win0 1 []) = (0, win0 1 [])
   \<and> JuliaGetModuleBase64 True api_missing () 4096 (win0 0 []) = (9, win0 0 [1])
   \<and> JuliaFunctionTableAccess64 True api_missing () 4096 (win0 0 []) = (7, win0 0 [1])
   \<and> JuliaFunctionTableAccess64 False api_missing () 4096 (win0 1 []) = (7, win0 1 [1])
   \<and> JuliaGetModuleBase64 False api_missing () 4096 (win0 1 []) = (9, win0 1 [1])"
  using resolution_callbacks_guard [of api_missing 4096 "win0 1 []" 0 0 "()" "()"]
    resolution_callbacks_guard [of api_missing 4096 "win0 0 []" 0 0 "()" "()"]
  by (simp add: api_missing_def win0_def)

text \<open>
  C9 as stated fails. With the flag set, the callbacks of the 64-bit build return what
  \<open>RtlLookupFunctionEntry\<close> found, which is not the value 0; and both callbacks of
  the 32-bit build call the debug-help service although the flag is set, and return
  what it returns.
\<close>

theorem resolution_callbacks_guard_counterexample:
  "jl_in_stackwalk (win0 1 ()) = 1
   \<and> JuliaGetModuleBase64 True api_found () 4198400 (win0 1 ()) = (4194304, win0 1 ())
   \<and> JuliaFunctionTableAccess64 True api_found () 4198400 (win0 1 ()) = (5, win0 1 ())
   \<and> JuliaFunctionTableAccess64 False api_found () 4198400 (win0 1 ()) = (7, win0 1 ())
   \<and> JuliaGetModuleBase64 False api_found () 4198400 (win0 1 ()) = (7, win0 1 ())
   \<and> JuliaGetModuleBase64 False api_missing () 4198400 (win0 1 []) = (9, win0 1 [1])"
  by (simp add: JuliaFunctionTableAccess64_def JuliaGetModuleBase64_def api_found_def
      api_missing_def win0_def)

end
